theory Spec2Isabelle
  imports Complex_Main "HOL-Library.Sublist"
begin

section \<open>JavaScript values shared by the services\<close>

text \<open>
  Strings are HOL strings (ASCII texts). A value that JavaScript may leave \<open>undefined\<close>
  or \<open>null\<close> is an \<open>option\<close>. A call to the generative backend either throws an error
  object or returns a payload; the error object carries the optional \<open>message\<close> that the
  callers inspect.
\<close>

record js_error =
  message :: "string option"

datatype 'a api_result = Throws js_error | Returns 'a

text \<open>\<open>new Error(msg)\<close>.\<close>

definition Error :: "string \<Rightarrow> js_error" where
  "Error msg = \<lparr>message = Some msg\<rparr>"

text \<open>Truthiness of a \<open>string | null\<close> value: \<open>null\<close> and the empty string are falsy.\<close>

fun truthy :: "string option \<Rightarrow> bool" where
  "truthy None = False"
| "truthy (Some s) = (s \<noteq> [])"

text \<open>A template literal renders an absent value as the text \<open>undefined\<close>.\<close>

fun template :: "string option \<Rightarrow> string" where
  "template None = ''undefined''"
| "template (Some s) = s"

text \<open>\<open>value || fallback\<close> on a \<open>string | null | undefined\<close> value.\<close>

fun or_default :: "string option \<Rightarrow> string \<Rightarrow> string" where
  "or_default None d = d"
| "or_default (Some s) d = (if s = [] then d else s)"

text \<open>\<open>String.prototype.includes\<close> and \<open>toLowerCase\<close> (on ASCII letters).\<close>

fun str_includes :: "string \<Rightarrow> string \<Rightarrow> bool" where
  "str_includes [] t = (t = [])"
| "str_includes (c # cs) t = (prefix t (c # cs) \<or> str_includes cs t)"

definition lower_char :: "char \<Rightarrow> char" where
  "lower_char c =
     (case map_of (zip ''ABCDEFGHIJKLMNOPQRSTUVWXYZ'' ''abcdefghijklmnopqrstuvwxyz'') c of
        None \<Rightarrow> c
      | Some l \<Rightarrow> l)"

definition toLowerCase :: "string \<Rightarrow> string" where
  "toLowerCase s = map lower_char s"

text \<open>Decimal rendering of a whole number inside a template literal.\<close>

definition digit_char :: "nat \<Rightarrow> char" where
  "digit_char d = ''0123456789'' ! d"

fun string_of_nat :: "nat \<Rightarrow> string" where
  "string_of_nat n =
     (if n < 10 then [digit_char n]
      else string_of_nat (n div 10) @ [digit_char (n mod 10)])"

text \<open>
  \<open>cleanBase64\<close>: the anchored, non-global regular expression
  \<open>^data:image\/(png|jpeg|jpg|webp);base64,\<close> removes one leading data-URL header.
\<close>

definition data_url_headers :: "string list" where
  "data_url_headers =
     [''data:image/png;base64,'', ''data:image/jpeg;base64,'',
      ''data:image/jpg;base64,'', ''data:image/webp;base64,'']"

definition cleanBase64 :: "string \<Rightarrow> string" where
  "cleanBase64 b64 =
     (case find (\<lambda>h. prefix h b64) data_url_headers of
        None \<Rightarrow> b64
      | Some h \<Rightarrow> drop (length h) b64)"

text \<open>
  The brand profile (declared in \<open>../types\<close>); the services read these three fields.
\<close>

record BrandProfile =
  style :: string
  tone :: string
  contrast :: string

section \<open>Image synthesis requests and responses\<close>

text \<open>
  A content part is inline binary data (mime type and the optional base64 \<open>data\<close>) or
  text. A synthesis request names the model, the parts and the aspect ratio. The fields
  of the response that the services read are
  \<open>response.candidates?.[0]?.content?.parts\<close>: \<open>None\<close> when any link of that chain is
  absent.
\<close>

datatype part = InlineData string "string option" | TextPart string

record image_request =
  model :: string
  parts :: "part list"
  aspectRatio :: string

type_synonym image_response = "part list option"

text \<open>
  The backend is an external collaborator: \<open>api i req\<close> is its answer to the call that
  carries request \<open>req\<close> for item \<open>i\<close> of a run, and \<open>lat i\<close> is the time that call takes
  to settle.
\<close>

type_synonym image_api = "nat \<Rightarrow> image_request \<Rightarrow> image_response api_result"

text \<open>
  The scan shared by \<open>generateSingle\<close> and \<open>generateSingleVariation\<close>:
  \<open>for (const part of ... || []) if (part.inlineData) return `data:image/png;base64,...`\<close>,
  then \<open>return null\<close>.
\<close>

fun first_inline_image :: "part list \<Rightarrow> string option" where
  "first_inline_image [] = None"
| "first_inline_image (InlineData m d # ps) = Some (''data:image/png;base64,'' @ template d)"
| "first_inline_image (TextPart t # ps) = first_inline_image ps"

definition response_parts :: "image_response \<Rightarrow> part list" where
  "response_parts r = (case r of None \<Rightarrow> [] | Some ps \<Rightarrow> ps)"

section \<open>Batch orchestrator\<close>

definition BATCH_SIZE :: nat where
  "BATCH_SIZE = 4"

text \<open>
  What an observer of a run sees: the dispatch of item \<open>i\<close>'s backend call and the
  settling of item \<open>i\<close>'s promise.
\<close>

datatype event = Dispatch nat | Settle nat

text \<open>
  The state of the batch loop: \<open>generatedUrls\<close> is the source's array; \<open>trace\<close> and
  \<open>batches\<close> are observation logs (the events so far, and the indices of each
  \<open>batchPromises\<close> array that was awaited).
\<close>

record batch_state =
  generatedUrls :: "string list"
  trace :: "event list"
  batches :: "nat list list"

definition init_batch_state :: batch_state where
  "init_batch_state = \<lparr>generatedUrls = [], trace = [], batches = []\<rparr>"

text \<open>
  A promise created by calling the single-item helper: the item's index and the value it
  settles with. Calling the helper runs it up to its first \<open>await\<close>, which is the
  backend call, so the call is dispatched when the promise is pushed.
\<close>

type_synonym promise = "nat \<times> string option"

text \<open>
  The inner loop
  \<open>for (let j = 0; j < BATCH_SIZE && i + j < quantity; j++) batchPromises.push(single(i + j))\<close>.
\<close>

function fill_batch ::
  "(nat \<Rightarrow> string option) \<Rightarrow> nat \<Rightarrow> nat \<Rightarrow> nat \<Rightarrow> promise list \<times> event list
     \<Rightarrow> promise list \<times> event list" where
  "fill_batch single quantity i j (batchPromises, tr) =
     (if j < BATCH_SIZE \<and> i + j < quantity
      then fill_batch single quantity i (Suc j)
             (batchPromises @ [(i + j, single (i + j))], tr @ [Dispatch (i + j)])
      else (batchPromises, tr))"
  by pat_completeness auto
termination
  by (relation "measure (\<lambda>(single, quantity, i, j, s). BATCH_SIZE - j)") auto

text \<open>
  \<open>await Promise.all(batchPromises)\<close>: the helpers never reject, so the await resumes
  once every promise of the batch has settled, in the order of their latencies; the
  values come back in the order of the array.
\<close>

definition await_all :: "(nat \<Rightarrow> nat) \<Rightarrow> promise list \<Rightarrow> event list \<Rightarrow> string option list \<times> event list" where
  "await_all lat batchPromises tr =
     (map snd batchPromises, tr @ map Settle (sort_key lat (map fst batchPromises)))"

text \<open>\<open>batchResults.forEach(res => { if (res) generatedUrls.push(res); })\<close>.\<close>

fun collect_results :: "string option list \<Rightarrow> string list \<Rightarrow> string list" where
  "collect_results [] urls = urls"
| "collect_results (res # rest) urls =
     collect_results rest
       (case res of None \<Rightarrow> urls | Some url \<Rightarrow> if url \<noteq> [] then urls @ [url] else urls)"

text \<open>
  The outer loop \<open>for (let i = 0; i < quantity; i += BATCH_SIZE)\<close>. The two services
  contain the same loop text; it is modelled once, over the single-item helper.
\<close>

function batch_loop ::
  "(nat \<Rightarrow> string option) \<Rightarrow> (nat \<Rightarrow> nat) \<Rightarrow> nat \<Rightarrow> nat \<Rightarrow> batch_state \<Rightarrow> batch_state" where
  "batch_loop single lat quantity i s =
     (if i < quantity then
        (let (batchPromises, tr1) = fill_batch single quantity i 0 ([], trace s);
             (batchResults, tr2) = await_all lat batchPromises tr1
         in batch_loop single lat quantity (i + BATCH_SIZE)
              \<lparr>generatedUrls = collect_results batchResults (generatedUrls s),
               trace = tr2,
               batches = batches s @ [map fst batchPromises]\<rparr>)
      else s)"
  by pat_completeness auto
termination
  by (relation "measure (\<lambda>(single, lat, quantity, i, s). quantity - i)")
     (auto simp: BATCH_SIZE_def)

text \<open>
  \<open>generateStudioImage\<close>. The prompt, the helper \<open>generateSingle\<close> with its
  \<open>try\<close>/\<open>catch\<close> (a thrown call becomes \<open>null\<close>), the loop, and the final check. The
  function is given the final state of the loop together with its outcome: \<open>Inl\<close> is the
  thrown error, \<open>Inr\<close> the returned list. \<open>quantity\<close> is a whole number, not negative.
\<close>

definition studio_prompt :: "string \<Rightarrow> BrandProfile option \<Rightarrow> string" where
  "studio_prompt studioStyle brandProfile =
     ''Create a professional studio photography shot of this product. Style: '' @ studioStyle
       @ ''. High resolution, 8k, photorealistic.''
       @ (case brandProfile of
            None \<Rightarrow> []
          | Some bp \<Rightarrow> '' Brand Style: '' @ style bp @ '', Lighting: '' @ tone bp
                        @ '', Contrast: '' @ contrast bp @ ''.'')"

definition generateSingle ::
  "image_api \<Rightarrow> string \<Rightarrow> string \<Rightarrow> string \<Rightarrow> nat \<Rightarrow> string option" where
  "generateSingle api cleanedImage prompt ratio index =
     (let variationPrompt =
            (if index > 0
             then prompt @ '' (Variation '' @ string_of_nat (index + 1)
                    @ '', slightly different angle or lighting nuance)''
             else prompt)
      in case api index
                \<lparr>model = ''gemini-2.5-flash-image'',
                 parts = [InlineData ''image/jpeg'' (Some cleanedImage), TextPart variationPrompt],
                 aspectRatio = ratio\<rparr> of
           Throws error \<Rightarrow> None
         | Returns response \<Rightarrow> first_inline_image (response_parts response))"

definition generateStudioImage ::
  "image_api \<Rightarrow> (nat \<Rightarrow> nat) \<Rightarrow> string \<Rightarrow> string \<Rightarrow> string \<Rightarrow> BrandProfile option \<Rightarrow> nat
     \<Rightarrow> batch_state \<times> (js_error + string list)" where
  "generateStudioImage api lat imageBase64 studioStyle ratio brandProfile quantity =
     (let cleanedImage = cleanBase64 imageBase64;
          prompt = studio_prompt studioStyle brandProfile;
          s = batch_loop (generateSingle api cleanedImage prompt ratio) lat quantity 0
                init_batch_state
      in (s, if length (generatedUrls s) = 0 then Inl (Error ''No image generated'')
             else Inr (generatedUrls s)))"

text \<open>\<open>generateCompositeImage\<close>, with its helper \<open>generateSingleVariation\<close>.\<close>

text \<open>
  An uploaded asset (declared in \<open>../types\<close>); the services read \<open>base64\<close>, the
  composite service is given \<open>{ base64, tag }\<close> pairs.
\<close>

record UploadedAsset =
  base64 :: string
  tag :: string

definition composite_prompt :: "string \<Rightarrow> BrandProfile option \<Rightarrow> string" where
  "composite_prompt promptInstruction brandProfile =
     ''Compose these images into a single cohesive scene. '' @ promptInstruction
       @ ''. Seamless blending, photorealistic, perfect lighting match.''
       @ (case brandProfile of
            None \<Rightarrow> []
          | Some bp \<Rightarrow> '' Apply brand style: '' @ style bp @ '', '' @ tone bp @ '' lighting.'')"

text \<open>The array \<open>parts\<close>: one inline image per input, then the text part.\<close>

definition composite_parts :: "UploadedAsset list \<Rightarrow> string \<Rightarrow> part list" where
  "composite_parts images finalPrompt =
     map (\<lambda>img. InlineData ''image/jpeg'' (Some (cleanBase64 (base64 img)))) images
       @ [TextPart finalPrompt]"

definition generateSingleVariation ::
  "image_api \<Rightarrow> part list \<Rightarrow> string \<Rightarrow> string \<Rightarrow> nat \<Rightarrow> string option" where
  "generateSingleVariation api all_parts finalPrompt ratio index =
     (let variationPrompt =
            (if index > 0
             then finalPrompt @ '' (Variation '' @ string_of_nat (index + 1)
                    @ '', try a slightly different angle or composition arrangement)''
             else finalPrompt);
          currentParts = take (length all_parts - 1) all_parts @ [TextPart variationPrompt]
      in case api index
                \<lparr>model = ''gemini-2.5-flash-image'', parts = currentParts, aspectRatio = ratio\<rparr> of
           Throws error \<Rightarrow> None
         | Returns response \<Rightarrow> first_inline_image (response_parts response))"

definition generateCompositeImage ::
  "image_api \<Rightarrow> (nat \<Rightarrow> nat) \<Rightarrow> UploadedAsset list \<Rightarrow> string \<Rightarrow> string \<Rightarrow> BrandProfile option
     \<Rightarrow> nat \<Rightarrow> batch_state \<times> (js_error + string list)" where
  "generateCompositeImage api lat images promptInstruction ratio brandProfile quantity =
     (let finalPrompt = composite_prompt promptInstruction brandProfile;
          all_parts = composite_parts images finalPrompt;
          s = batch_loop (generateSingleVariation api all_parts finalPrompt ratio) lat quantity 0
                init_batch_state
      in (s, if length (generatedUrls s) = 0 then Inl (Error ''No composite images generated'')
             else Inr (generatedUrls s)))"

section \<open>Video synthesis and its poller\<close>

text \<open>
  The operation handle of a video job: its \<open>done\<close> flag and
  \<open>operation.response?.generatedVideos?.[0]?.video?.uri\<close> (\<open>None\<close> when a link of the
  chain is absent).
\<close>

record operation =
  op_done :: bool
  op_uri :: "string option"

record video_request =
  video_model :: string
  imageBytes :: string
  mimeType :: string
  video_prompt :: string
  numberOfVideos :: nat
  resolution :: string
  video_aspectRatio :: string

text \<open>
  The backend of one video job: the answer of \<open>ai.models.generateVideos\<close> to the
  request, and the answer of the \<open>n\<close>-th \<open>ai.operations.getVideosOperation\<close> call of the
  job to the handle it is given.
\<close>

record veo_backend =
  generateVideos :: "video_request \<Rightarrow> operation api_result"
  getVideosOperation :: "nat \<Rightarrow> operation \<Rightarrow> operation api_result"

text \<open>What the poller does between submission and completion.\<close>

datatype poll_event = Delay nat | GetVideosOperation

text \<open>
  The polling loop
  \<open>while (!operation.done) { await new Promise(r => setTimeout(r, 5000)); operation = await getVideosOperation(...) }\<close>.
  It has no bound: its value is \<open>None\<close> when the backend never reports \<open>done\<close>. The
  counter \<open>n\<close> numbers the status calls and \<open>cycles\<close> records what the loop did.
\<close>

partial_function (option) poll_loop ::
  "(nat \<Rightarrow> operation \<Rightarrow> operation api_result) \<Rightarrow> nat \<Rightarrow> operation \<Rightarrow> poll_event list
     \<Rightarrow> ((js_error + operation) \<times> poll_event list) option" where
  "poll_loop getOp n operation cycles =
     (if \<not> op_done operation then
        (case getOp n operation of
           Throws error \<Rightarrow> Some (Inl error, cycles @ [Delay 5000, GetVideosOperation])
         | Returns operation' \<Rightarrow>
             poll_loop getOp (Suc n) operation' (cycles @ [Delay 5000, GetVideosOperation]))
      else Some (Inr operation, cycles))"

text \<open>
  \<open>generateVeoVideo\<close>: \<open>Inl\<close> is the rethrown error, \<open>Inr None\<close> is \<open>null\<close>; \<open>key\<close> is
  \<open>process.env.API_KEY\<close>.
\<close>

definition veo_request :: "string \<Rightarrow> string \<Rightarrow> string \<Rightarrow> video_request" where
  "veo_request cleanedImage prompt ratio =
     \<lparr>video_model = ''veo-3.1-fast-generate-preview'',
      imageBytes = cleanedImage,
      mimeType = ''image/jpeg'',
      video_prompt = prompt,
      numberOfVideos = 1,
      resolution = ''720p'',
      video_aspectRatio = ratio\<rparr>"

definition generateVeoVideo ::
  "string option \<Rightarrow> veo_backend \<Rightarrow> string \<Rightarrow> string \<Rightarrow> string
     \<Rightarrow> ((js_error + string option) \<times> poll_event list) option" where
  "generateVeoVideo key backend imageBase64 prompt ratio =
     (let cleanedImage = cleanBase64 imageBase64 in
      case generateVideos backend (veo_request cleanedImage prompt ratio) of
        Throws error \<Rightarrow> Some (Inl error, [])
      | Returns operation0 \<Rightarrow>
          (case poll_loop (getVideosOperation backend) 0 operation0 [] of
             None \<Rightarrow> None
           | Some (Inl error, cycles) \<Rightarrow> Some (Inl error, cycles)
           | Some (Inr operation, cycles) \<Rightarrow>
               (let videoUri = op_uri operation in
                if \<not> truthy videoUri then Some (Inr None, cycles)
                else Some (Inr (Some (template videoUri @ ''&key='' @ template key)), cycles))))"

section \<open>Product analysis\<close>

text \<open>
  \<open>JSON.parse\<close> belongs to the JavaScript runtime. It is modelled after the JSON grammar
  (ECMA-404) on ASCII texts: \<open>None\<close> is the thrown \<open>SyntaxError\<close>. A number is kept as
  its validated source text, an object as the list of its members in order of first
  occurrence; a \<open>\u\<close> escape is read as the character with that code (codes above 255
  are outside this string model).
\<close>

datatype json =
    JNull
  | JBool bool
  | JNumber string
  | JString string
  | JArray "json list"
  | JObject "(string \<times> json) list"

definition is_ws :: "char \<Rightarrow> bool" where
  "is_ws c = (c \<in> set [CHR '' '', CHR 0x09, CHR 0x0A, CHR 0x0D])"

definition skip_ws :: "string \<Rightarrow> string" where
  "skip_ws s = dropWhile is_ws s"

definition is_digit :: "char \<Rightarrow> bool" where
  "is_digit c = (c \<in> set ''0123456789'')"

definition is_hex :: "char \<Rightarrow> bool" where
  "is_hex c = (c \<in> set ''0123456789abcdefABCDEF'')"

definition hex_val :: "char \<Rightarrow> nat" where
  "hex_val c = (case map_of (zip ''0123456789abcdefABCDEF''
                       [0, 1, 2, 3, 4, 5, 6, 7, 8, 9, 10, 11, 12, 13, 14, 15, 10, 11, 12, 13, 14, 15]) c of
                  None \<Rightarrow> 0 | Some v \<Rightarrow> v)"

definition simple_escape :: "char \<Rightarrow> char option" where
  "simple_escape e =
     map_of [(CHR 0x22, CHR 0x22), (CHR 0x5C, CHR 0x5C), (CHR ''/'', CHR ''/''),
             (CHR ''b'', CHR 0x08), (CHR ''f'', CHR 0x0C), (CHR ''n'', CHR 0x0A),
             (CHR ''r'', CHR 0x0D), (CHR ''t'', CHR 0x09)] e"

text \<open>The characters of a string literal after its opening quote, up to the closing quote.\<close>

fun parse_chars :: "string \<Rightarrow> (string \<times> string) option" where
  "parse_chars [] = None"
| "parse_chars (c # cs) =
     (if c = CHR 0x22 then Some ([], cs)
      else if c = CHR 0x5C then
        (case cs of
           [] \<Rightarrow> None
         | e # r \<Rightarrow>
             if e = CHR ''u'' then
               (if length r \<ge> 4 \<and> list_all is_hex (take 4 r)
                then map_option (\<lambda>(str, rest).
                       (char_of (foldl (\<lambda>a h. 16 * a + hex_val h) 0 (take 4 r)) # str, rest))
                       (parse_chars (drop 4 r))
                else None)
             else (case simple_escape e of
                     None \<Rightarrow> None
                   | Some ch \<Rightarrow> map_option (\<lambda>(str, rest). (ch # str, rest)) (parse_chars r)))
      else if (of_char c :: nat) < 32 then None
      else map_option (\<lambda>(str, rest). (c # str, rest)) (parse_chars cs))"

text \<open>
  A number token: \<open>-? (0 | [1-9][0-9]*) (. [0-9]+)? ([eE] [+-]? [0-9]+)?\<close>. Each part
  returns its text and the rest of the input.
\<close>

fun int_part :: "string \<Rightarrow> (string \<times> string) option" where
  "int_part [] = None"
| "int_part (c # r) =
     (if c = CHR ''0'' then Some ([c], r)
      else if is_digit c then Some (c # takeWhile is_digit r, dropWhile is_digit r)
      else None)"

fun frac_part :: "string \<Rightarrow> (string \<times> string) option" where
  "frac_part [] = Some ([], [])"
| "frac_part (c # r) =
     (if c = CHR ''.'' then
        (if takeWhile is_digit r = [] then None
         else Some (c # takeWhile is_digit r, dropWhile is_digit r))
      else Some ([], c # r))"

fun exp_sign :: "string \<Rightarrow> string \<times> string" where
  "exp_sign [] = ([], [])"
| "exp_sign (d # r) = (if d = CHR ''+'' \<or> d = CHR ''-'' then ([d], r) else ([], d # r))"

fun exp_part :: "string \<Rightarrow> (string \<times> string) option" where
  "exp_part [] = Some ([], [])"
| "exp_part (c # r) =
     (if c = CHR ''e'' \<or> c = CHR ''E'' then
        (case exp_sign r of
           (sg, r') \<Rightarrow>
             if takeWhile is_digit r' = [] then None
             else Some (c # sg @ takeWhile is_digit r', dropWhile is_digit r'))
      else Some ([], c # r))"

definition parse_number :: "string \<Rightarrow> (string \<times> string) option" where
  "parse_number s =
     (case (case s of c # r \<Rightarrow> if c = CHR ''-'' then ([c], r) else ([], s) | [] \<Rightarrow> ([], s)) of
        (sign, s1) \<Rightarrow>
          (case int_part s1 of
             None \<Rightarrow> None
           | Some (ip, s2) \<Rightarrow>
               (case frac_part s2 of
                  None \<Rightarrow> None
                | Some (fp, s3) \<Rightarrow>
                    (case exp_part s3 of
                       None \<Rightarrow> None
                     | Some (ep, s4) \<Rightarrow> Some (sign @ ip @ fp @ ep, s4)))))"

text \<open>A repeated key keeps its first position and takes the last value.\<close>

fun put_member :: "string \<Rightarrow> json \<Rightarrow> (string \<times> json) list \<Rightarrow> (string \<times> json) list" where
  "put_member k v [] = [(k, v)]"
| "put_member k v ((k', v') # ms) = (if k' = k then (k, v) # ms else (k', v') # put_member k v ms)"

text \<open>
  Values, array elements and object members, by recursive descent. The first argument
  bounds the depth of the recursion; every two steps down consume at least one character,
  so the bound \<open>2 * length text + 2\<close> that \<open>JSON_parse\<close> starts with is never used
  up (lemma \<open>fuel_enough\<close>).
\<close>

fun parse_value :: "nat \<Rightarrow> string \<Rightarrow> (json \<times> string) option"
  and parse_elements :: "nat \<Rightarrow> string \<Rightarrow> (json list \<times> string) option"
  and parse_members :: "nat \<Rightarrow> string \<Rightarrow> ((string \<times> json) list \<times> string) option" where
  "parse_value 0 s = None"
| "parse_value (Suc n) s =
     (case skip_ws s of
        [] \<Rightarrow> None
      | c # r \<Rightarrow>
          if c = CHR ''{'' then
            (case skip_ws r of
               [] \<Rightarrow> None
             | c' # r' \<Rightarrow>
                 if c' = CHR ''}'' then Some (JObject [], r')
                 else map_option (\<lambda>(ms, rest). (JObject (foldl (\<lambda>obj (k, v). put_member k v obj) [] ms), rest))
                        (parse_members n (c' # r')))
          else if c = CHR ''['' then
            (case skip_ws r of
               [] \<Rightarrow> None
             | c' # r' \<Rightarrow>
                 if c' = CHR '']'' then Some (JArray [], r')
                 else map_option (\<lambda>(vs, rest). (JArray vs, rest)) (parse_elements n (c' # r')))
          else if c = CHR 0x22 then map_option (\<lambda>(str, rest). (JString str, rest)) (parse_chars r)
          else if prefix ''true'' (c # r) then Some (JBool True, drop 4 (c # r))
          else if prefix ''false'' (c # r) then Some (JBool False, drop 5 (c # r))
          else if prefix ''null'' (c # r) then Some (JNull, drop 4 (c # r))
          else map_option (\<lambda>(num, rest). (JNumber num, rest)) (parse_number (c # r)))"
| "parse_elements 0 s = None"
| "parse_elements (Suc n) s =
     (case parse_value n s of
        None \<Rightarrow> None
      | Some (v, r) \<Rightarrow>
          (case skip_ws r of
             [] \<Rightarrow> None
           | c # r' \<Rightarrow>
               if c = CHR '','' then map_option (\<lambda>(vs, rest). (v # vs, rest)) (parse_elements n r')
               else if c = CHR '']'' then Some ([v], r')
               else None))"
| "parse_members 0 s = None"
| "parse_members (Suc n) s =
     (case skip_ws s of
        [] \<Rightarrow> None
      | q # r \<Rightarrow>
          if q \<noteq> CHR 0x22 then None
          else (case parse_chars r of
                  None \<Rightarrow> None
                | Some (k, r1) \<Rightarrow>
                    (case skip_ws r1 of
                       [] \<Rightarrow> None
                     | c # r2 \<Rightarrow>
                         if c \<noteq> CHR '':'' then None
                         else (case parse_value n r2 of
                                 None \<Rightarrow> None
                               | Some (v, r3) \<Rightarrow>
                                   (case skip_ws r3 of
                                      [] \<Rightarrow> None
                                    | c' # r4 \<Rightarrow>
                                        if c' = CHR '','' then
                                          map_option (\<lambda>(ms, rest). ((k, v) # ms, rest)) (parse_members n r4)
                                        else if c' = CHR ''}'' then Some ([(k, v)], r4)
                                        else None)))))"

definition JSON_parse :: "string \<Rightarrow> json option" where
  "JSON_parse text =
     (case parse_value (2 * length text + 2) text of
        None \<Rightarrow> None
      | Some (v, rest) \<Rightarrow> if skip_ws rest = [] then Some v else None)"

text \<open>
  \<open>analyzeProductDetails\<close>. The backend answers the request with \<open>response.text\<close>
  (possibly absent) or throws; the call is outside the \<open>try\<close>, so its error propagates.
  The result is whatever \<open>JSON.parse\<close> returns, read as an \<open>AnalysisResult\<close> without a
  check.
\<close>

record analysis_request =
  analysis_model :: string
  analysis_parts :: "part list"
  responseMimeType :: string

definition analysis_fallback :: json where
  "analysis_fallback =
     JObject [(''description'', JString ''Analysis failed''),
              (''usp'', JString ''High Quality''),
              (''productCategory'', JString ''General''),
              (''targetGender'', JString ''Unisex'')]"

definition analysis_instruction :: string where
  "analysis_instruction =
     ''Analyze this product image. Identify the visual description, suggest a USP, ''
     @ ''categorize the product type (e.g., Skincare, Shoes, Apparel), and determine the ''
     @ ''likely target gender style (Feminine, Masculine, or Unisex).''"

definition analysis_request_of :: "string \<Rightarrow> analysis_request" where
  "analysis_request_of cleanedImage =
     \<lparr>analysis_model = ''gemini-3-flash-preview'',
      analysis_parts = [InlineData ''image/jpeg'' (Some cleanedImage), TextPart analysis_instruction],
      responseMimeType = ''application/json''\<rparr>"

definition analyzeProductDetails ::
  "(analysis_request \<Rightarrow> string option api_result) \<Rightarrow> string \<Rightarrow> js_error + json" where
  "analyzeProductDetails api imageBase64 =
     (let cleanedImage = cleanBase64 imageBase64 in
      case api (analysis_request_of cleanedImage) of
        Throws error \<Rightarrow> Inl error
      | Returns text \<Rightarrow>
          (case JSON_parse (or_default text ''{}'') of
             Some v \<Rightarrow> Inr v
           | None \<Rightarrow> Inr analysis_fallback))"

text \<open>Reading a field of the returned object; \<open>None\<close> is \<open>undefined\<close>.\<close>

fun field :: "json \<Rightarrow> string \<Rightarrow> json option" where
  "field (JObject ms) k = map_of ms k"
| "field v k = None"

section \<open>Prompt builder\<close>

record AnalysisResult =
  description :: string
  usp :: string
  productCategory :: string
  targetGender :: string

text \<open>
  The two local variables that \<open>generateCreativePrompt\<close> derives before it renders the
  system instruction (\<open>let derivedModelContext = modelType; let derivedAction = pose;\<close>
  and the block \<open>if (analysisData) { ... }\<close>).
\<close>

definition derivedModelContext :: "string \<Rightarrow> AnalysisResult option \<Rightarrow> string" where
  "derivedModelContext modelType analysisData =
     (case analysisData of
        None \<Rightarrow> modelType
      | Some a \<Rightarrow>
          if modelType = ''Auto-Detect based on Product'' then
            (if targetGender a = ''Masculine'' then ''Male Model''
             else if targetGender a = ''Feminine'' then ''Female Model''
             else ''Professional Model (Neutral)'')
          else modelType)"

definition derivedAction :: "string \<Rightarrow> AnalysisResult option \<Rightarrow> string" where
  "derivedAction pose analysisData =
     (case analysisData of
        None \<Rightarrow> pose
      | Some a \<Rightarrow>
          if str_includes pose ''Smart Adaptive'' \<or> pose = ''Let AI Decide (Auto)'' then
            (if str_includes (toLowerCase (productCategory a)) ''shoe''
                \<or> str_includes (toLowerCase (productCategory a)) ''footwear''
             then ''Low angle shot, showing the model's legs/feet walking or dynamic movement with the shoes.''
             else if str_includes (toLowerCase (productCategory a)) ''skincare''
                \<or> str_includes (toLowerCase (productCategory a)) ''cosmetic''
             then ''Close up portrait, model holding product near face, flawless skin texture.''
             else if str_includes (toLowerCase (productCategory a)) ''clothing''
                \<or> str_includes (toLowerCase (productCategory a)) ''fashion''
             then ''Medium or Full shot, model wearing the product, confident fashion pose.''
             else if str_includes (toLowerCase (productCategory a)) ''beverage''
                \<or> str_includes (toLowerCase (productCategory a)) ''food''
             then ''Model holding the item ready to consume/drink, enjoying the moment.''
             else ''Natural interaction with the product in a lifestyle setting.'')
          else pose)"

section \<open>Scene orchestrator (the storyboard component)\<close>

datatype video_status = generating | completed | failed

record VideoGenerationScene =
  scene_id :: string
  scene_image :: "UploadedAsset option"
  motionPrompt :: string

record GeneratedVideoResult =
  sceneId :: string
  videoUrl :: string
  status :: video_status

text \<open>
  The host's credential accessor \<open>window.aistudio\<close>: what \<open>hasSelectedApiKey()\<close> answers,
  and what the \<open>n\<close>-th \<open>openSelectKey()\<close> of the session answers.
\<close>

record aistudio =
  hasSelectedApiKey :: "bool api_result"
  openSelectKey :: "nat \<Rightarrow> unit api_result"

text \<open>
  The component's state. \<open>isGenerating\<close>, \<open>generatedVideos\<close> and \<open>errorMsg\<close> are its React
  state; \<open>alerts\<close>, \<open>keyPrompts\<close> and \<open>veoCalls\<close> observe its effects: the \<open>alert\<close> texts,
  the number of \<open>openSelectKey()\<close> calls, and the scene id and prompt of every
  \<open>generateVeoVideo\<close> call.
\<close>

record ui_state =
  isGenerating :: bool
  generatedVideos :: "GeneratedVideoResult list"
  errorMsg :: "string option"
  alerts :: "string list"
  keyPrompts :: nat
  veoCalls :: "(string \<times> string) list"

text \<open>
  The surroundings of a run: \<open>process.env.API_KEY\<close>, the accessor if the host has one,
  the backend's behaviour on the \<open>k\<close>-th video job of the run, and the time that job
  takes to settle.
\<close>

record host =
  env_API_KEY :: "string option"
  window_aistudio :: "aistudio option"
  veo :: "nat \<Rightarrow> veo_backend"
  settle_time :: "nat \<Rightarrow> nat"

definition checkApiKey :: "aistudio option \<Rightarrow> ui_state \<Rightarrow> bool \<times> ui_state" where
  "checkApiKey accessor st =
     (case accessor of
        None \<Rightarrow> (True, st)
      | Some a \<Rightarrow>
          (case hasSelectedApiKey a of
             Throws e \<Rightarrow> (False, st)
           | Returns hasKey \<Rightarrow>
               if \<not> hasKey then
                 (case openSelectKey a (keyPrompts st) of
                    Throws e \<Rightarrow> (False, st\<lparr>keyPrompts := Suc (keyPrompts st)\<rparr>)
                  | Returns u \<Rightarrow> (True, st\<lparr>keyPrompts := Suc (keyPrompts st)\<rparr>))
               else (True, st)))"

text \<open>The prompt of a scene: motion text, then the brand profile's context.\<close>

definition scene_prompt :: "VideoGenerationScene \<Rightarrow> BrandProfile option \<Rightarrow> string" where
  "scene_prompt scene brandProfile =
     or_default (Some (motionPrompt scene)) ''Cinematic movement, high quality.''
       @ (case brandProfile of
            None \<Rightarrow> []
          | Some bp \<Rightarrow> '' Style: '' @ style bp @ '', Tone: '' @ tone bp @ ''.'')"

text \<open>
  The promise of one scene's \<open>async\<close> callback: \<open>Skipped\<close> is the early \<open>return\<close> for a
  scene without an image, \<open>Pending\<close> a video job whose poller never ends, \<open>Settles r\<close> a
  job whose \<open>generateVeoVideo\<close> call returned or threw \<open>r\<close>.
\<close>

datatype task = Skipped | Pending | Settles "js_error + string option"

definition start_scene ::
  "host \<Rightarrow> BrandProfile option \<Rightarrow> string \<Rightarrow> nat \<Rightarrow> VideoGenerationScene \<Rightarrow> task" where
  "start_scene h brandProfile ratio k scene =
     (case scene_image scene of
        None \<Rightarrow> Skipped
      | Some img \<Rightarrow>
          (case generateVeoVideo (env_API_KEY h) (veo h k) (base64 img)
                  (scene_prompt scene brandProfile) ratio of
             None \<Rightarrow> Pending
           | Some (r, cycles) \<Rightarrow> Settles r))"

text \<open>
  \<open>setGeneratedVideos(prev => prev.map(v => v.sceneId === scene.id ? {...} : v))\<close>, in its
  two uses.
\<close>

definition record_result :: "VideoGenerationScene \<Rightarrow> string option \<Rightarrow> ui_state \<Rightarrow> ui_state" where
  "record_result scene url st =
     st\<lparr>generatedVideos :=
          map (\<lambda>v. if sceneId v = scene_id scene
                    then v\<lparr>videoUrl := or_default url [],
                           status := (if truthy url then completed else failed)\<rparr>
                    else v)
              (generatedVideos st)\<rparr>"

definition mark_failed :: "VideoGenerationScene \<Rightarrow> ui_state \<Rightarrow> ui_state" where
  "mark_failed scene st =
     st\<lparr>generatedVideos :=
          map (\<lambda>v. if sceneId v = scene_id scene then v\<lparr>status := failed\<rparr> else v)
              (generatedVideos st)\<rparr>"

text \<open>\<open>e.message && e.message.includes("Requested entity was not found")\<close>.\<close>

definition credential_error :: "js_error \<Rightarrow> bool" where
  "credential_error e =
     (truthy (message e) \<and> str_includes (template (message e)) ''Requested entity was not found'')"

text \<open>
  What a scene's callback does once its \<open>generateVeoVideo\<close> call has settled: the rest of
  the \<open>try\<close> block, or the \<open>catch\<close> block. The callback's own promise is then fulfilled,
  or rejected when \<open>openSelectKey()\<close> throws inside the \<open>catch\<close> block. The steps of one
  callback are taken together (no other job settles while the key prompt is open).
\<close>

datatype settled = Fulfilled | Rejected js_error

definition settle_scene ::
  "aistudio option \<Rightarrow> VideoGenerationScene \<Rightarrow> js_error + string option \<Rightarrow> ui_state
     \<Rightarrow> settled \<times> ui_state" where
  "settle_scene accessor scene r st =
     (case r of
        Inr url \<Rightarrow> (Fulfilled, record_result scene url st)
      | Inl e \<Rightarrow>
          if credential_error e then
            (let st1 = st\<lparr>errorMsg := Some ''API Key invalid or not selected properly. Please try again.''\<rparr>
             in case accessor of
                  None \<Rightarrow> (Fulfilled, mark_failed scene st1)
                | Some a \<Rightarrow>
                    (case openSelectKey a (keyPrompts st1) of
                       Throws e' \<Rightarrow> (Rejected e', st1\<lparr>keyPrompts := Suc (keyPrompts st1)\<rparr>)
                     | Returns u \<Rightarrow>
                         (Fulfilled, mark_failed scene (st1\<lparr>keyPrompts := Suc (keyPrompts st1)\<rparr>))))
          else (Fulfilled, mark_failed scene st))"

text \<open>
  The callbacks settle one after the other. \<open>await Promise.all(promises)\<close> rejects at the
  first rejected callback: the outer \<open>catch\<close> and \<open>finally\<close> run then, and the remaining
  callbacks still run to their end. The flag tells whether that has happened.
\<close>

fun settle_all ::
  "aistudio option \<Rightarrow> (VideoGenerationScene \<times> (js_error + string option)) list \<Rightarrow> bool \<Rightarrow> ui_state
     \<Rightarrow> bool \<times> ui_state" where
  "settle_all accessor [] rejected st = (rejected, st)"
| "settle_all accessor ((scene, r) # rest) rejected st =
     (case settle_scene accessor scene r st of
        (Fulfilled, st') \<Rightarrow> settle_all accessor rest rejected st'
      | (Rejected e, st') \<Rightarrow>
          if rejected then settle_all accessor rest True st'
          else settle_all accessor rest True
                 (st'\<lparr>errorMsg := Some ''An unexpected error occurred during generation.'',
                      isGenerating := False\<rparr>))"

text \<open>
  \<open>handleGenerate\<close>. Every callback runs up to its video call when \<open>validScenes.map\<close>
  creates it, so the calls are dispatched in scene order; the jobs that settle do so in
  the order of their settle times. When no callback rejects, \<open>finally\<close> runs once all
  have settled, which never happens if one of them is pending for ever.
\<close>

definition tasks_of ::
  "host \<Rightarrow> BrandProfile option \<Rightarrow> string \<Rightarrow> VideoGenerationScene list
     \<Rightarrow> (nat \<times> VideoGenerationScene \<times> task) list" where
  "tasks_of h brandProfile ratio validScenes =
     map (\<lambda>(k, scene). (k, scene, start_scene h brandProfile ratio k scene))
         (enumerate 0 validScenes)"

fun settling :: "(nat \<times> VideoGenerationScene \<times> task) list
     \<Rightarrow> (nat \<times> VideoGenerationScene \<times> (js_error + string option)) list" where
  "settling [] = []"
| "settling ((k, scene, Settles r) # ts) = (k, scene, r) # settling ts"
| "settling ((k, scene, t) # ts) = settling ts"

definition handleGenerate ::
  "host \<Rightarrow> BrandProfile option \<Rightarrow> string \<Rightarrow> VideoGenerationScene list \<Rightarrow> ui_state \<Rightarrow> ui_state" where
  "handleGenerate h brandProfile ratio scenes st0 =
     (let st1 = st0\<lparr>errorMsg := None\<rparr>;
          validScenes = filter (\<lambda>s. scene_image s \<noteq> None) scenes
      in if length validScenes = 0
         then st1\<lparr>alerts := alerts st1 @ [''Please upload an image for at least one scene.'']\<rparr>
         else
           (let (keyReady, st2) = checkApiKey (window_aistudio h) st1
            in if \<not> keyReady then st2
               else
                 (let st3 = st2\<lparr>isGenerating := True,
                                generatedVideos :=
                                  map (\<lambda>s. \<lparr>sceneId = scene_id s, videoUrl = [], status = generating\<rparr>)
                                      validScenes\<rparr>;
                      tasks = tasks_of h brandProfile ratio validScenes;
                      st4 = st3\<lparr>veoCalls := veoCalls st3
                                   @ map (\<lambda>(k, scene, t). (scene_id scene, scene_prompt scene brandProfile))
                                       (filter (\<lambda>(k, scene, t). t \<noteq> Skipped) tasks)\<rparr>;
                      in_order = sort_key (\<lambda>(k, scene, r). settle_time h k) (settling tasks);
                      (rejected, st5) = settle_all (window_aistudio h)
                                          (map (\<lambda>(k, scene, r). (scene, r)) in_order) False st4
                  in if \<not> rejected \<and> list_all (\<lambda>(k, scene, t). t \<noteq> Pending) tasks
                     then st5\<lparr>isGenerating := False\<rparr>
                     else st5)))"


section \<open>Notions used in the proofs\<close>

text \<open>
  The indices of the batch that starts at \<open>i\<close>, the batches from \<open>i\<close> on, the events of
  one batch, and the artifacts of a list of items.
\<close>

definition window :: "nat \<Rightarrow> nat \<Rightarrow> nat list" where
  "window quantity i = [i ..< min (i + BATCH_SIZE) quantity]"

function groups_from :: "nat \<Rightarrow> nat \<Rightarrow> nat list list" where
  "groups_from quantity i =
     (if i < quantity then window quantity i # groups_from quantity (i + BATCH_SIZE) else [])"
  by pat_completeness auto
termination
  by (relation "measure (\<lambda>(quantity, i). quantity - i)") (auto simp: BATCH_SIZE_def)

definition segment :: "(nat \<Rightarrow> nat) \<Rightarrow> nat list \<Rightarrow> event list" where
  "segment lat g = map Dispatch g @ map Settle (sort_key lat g)"

definition successes :: "(nat \<Rightarrow> string option) \<Rightarrow> nat list \<Rightarrow> string list" where
  "successes single ns =
     concat (map (\<lambda>n. case single n of None \<Rightarrow> [] | Some u \<Rightarrow> if u \<noteq> [] then [u] else []) ns)"

text \<open>
  Concrete surroundings for the worked examples: a backend that throws on items 1 and 2
  and returns an image otherwise, one that always throws, and jobs that settle in the
  reverse of their dispatch order.
\<close>

definition sample_api :: image_api where
  "sample_api i req =
     (if i = 1 \<or> i = 2 then Throws (Error ''quota exceeded'')
      else Returns (Some [TextPart ''Here is the image.'',
                          InlineData ''image/png'' (Some (''IMG'' @ string_of_nat i))]))"

definition failing_api :: image_api where
  "failing_api i req = Throws (Error ''quota exceeded'')"

definition sample_lat :: "nat \<Rightarrow> nat" where
  "sample_lat i = 20 - i"

definition sample_image :: string where
  "sample_image = ''data:image/png;base64,QUJD''"

text \<open>
  Video backends for the worked examples: one whose handle is not done at submission and
  at the first status call and is done with URI \<open>X\<close> at the second; one that is done
  at the first status call; one that is done at submission.
\<close>

definition pending_operation :: operation where
  "pending_operation = \<lparr>op_done = False, op_uri = None\<rparr>"

definition finished_operation :: "string \<Rightarrow> operation" where
  "finished_operation u = \<lparr>op_done = True, op_uri = Some u\<rparr>"

definition scenario_d_backend :: veo_backend where
  "scenario_d_backend =
     \<lparr>generateVideos = (\<lambda>req. Returns pending_operation),
      getVideosOperation =
        (\<lambda>n operation. if n = 0 then Returns pending_operation else Returns (finished_operation ''X''))\<rparr>"

definition one_poll_backend :: veo_backend where
  "one_poll_backend =
     \<lparr>generateVideos = (\<lambda>req. Returns pending_operation),
      getVideosOperation = (\<lambda>n operation. Returns (finished_operation ''https://v.test/clip?alt=media''))\<rparr>"

definition instant_backend :: veo_backend where
  "instant_backend =
     \<lparr>generateVideos = (\<lambda>req. Returns (finished_operation ''X'')),
      getVideosOperation = (\<lambda>n operation. Returns operation)\<rparr>"

text \<open>An analysis backend that answers every request with the given \<open>response.text\<close>.\<close>

definition analysis_backend :: "string option \<Rightarrow> analysis_request \<Rightarrow> string option api_result" where
  "analysis_backend text req = Returns text"

text \<open>An analysis result for a given product category.\<close>

definition analysis_of_category :: "string \<Rightarrow> AnalysisResult" where
  "analysis_of_category category =
     \<lparr>description = ''A product on a white table'', usp = ''Hand made'',
      productCategory = category, targetGender = ''Unisex''\<rparr>"

text \<open>
  Storyboard surroundings for the worked examples: scenes with and without an image, an
  idle component, a video backend that rejects the credential, a host without the
  credential accessor and one with it.
\<close>

definition scene_with_image :: "string \<Rightarrow> string \<Rightarrow> VideoGenerationScene" where
  "scene_with_image i motion =
     \<lparr>scene_id = i, scene_image = Some \<lparr>base64 = sample_image, tag = ''@img1''\<rparr>,
      motionPrompt = motion\<rparr>"

definition scene_without_image :: "string \<Rightarrow> VideoGenerationScene" where
  "scene_without_image i = \<lparr>scene_id = i, scene_image = None, motionPrompt = ''zoom in''\<rparr>"

definition idle_ui :: ui_state where
  "idle_ui =
     \<lparr>isGenerating = False, generatedVideos = [], errorMsg = None, alerts = [],
      keyPrompts = 0, veoCalls = []\<rparr>"

definition credential_backend :: veo_backend where
  "credential_backend =
     \<lparr>generateVideos = (\<lambda>req. Throws (Error ''404: Requested entity was not found.'')),
      getVideosOperation = (\<lambda>n operation. Returns operation)\<rparr>"

definition plain_host :: host where
  "plain_host =
     \<lparr>env_API_KEY = Some ''K'', window_aistudio = None,
      veo = (\<lambda>k. if k = 0 then instant_backend else credential_backend),
      settle_time = (\<lambda>k. 10 - k)\<rparr>"

definition studio_host :: host where
  "studio_host =
     \<lparr>env_API_KEY = Some ''K'',
      window_aistudio = Some \<lparr>hasSelectedApiKey = Returns True, openSelectKey = (\<lambda>n. Returns ())\<rparr>,
      veo = (\<lambda>k. if k = 0 then instant_backend else credential_backend),
      settle_time = (\<lambda>k. 10 - k)\<rparr>"

definition busy_ui :: ui_state where
  "busy_ui =
     \<lparr>isGenerating = True,
      generatedVideos = [\<lparr>sceneId = ''1'', videoUrl = [], status = generating\<rparr>,
                         \<lparr>sceneId = ''2'', videoUrl = [], status = generating\<rparr>],
      errorMsg = None, alerts = [], keyPrompts = 0,
      veoCalls = [(''1'', ''pan''), (''2'', ''tilt'')]\<rparr>"

section \<open>The batch orchestrator: groups, failures, total failure\<close>

declare fill_batch.simps [simp del] batch_loop.simps [simp del] groups_from.simps [simp del]
  string_of_nat.simps [simp del]

lemma fill_batch_eq:
  "fill_batch single quantity i j (ps, tr) =
     (ps @ map (\<lambda>n. (n, single n)) [i + j ..< min (i + BATCH_SIZE) quantity],
      tr @ map Dispatch [i + j ..< min (i + BATCH_SIZE) quantity])"
proof (induction single quantity i j "(ps, tr)" arbitrary: ps tr rule: fill_batch.induct)
  case (1 single quantity i j ps tr)
  show ?case
  proof (cases "j < BATCH_SIZE \<and> i + j < quantity")
    case True
    then have "[i + j ..< min (i + BATCH_SIZE) quantity]
                 = (i + j) # [i + Suc j ..< min (i + BATCH_SIZE) quantity]"
      by (simp add: upt_conv_Cons)
    moreover have "fill_batch single quantity i j (ps, tr) =
        fill_batch single quantity i (Suc j) (ps @ [(i + j, single (i + j))], tr @ [Dispatch (i + j)])"
      using True by (subst fill_batch.simps) simp
    ultimately show ?thesis
      using "1.hyps" [OF True] by simp
  next
    case False
    then have "[i + j ..< min (i + BATCH_SIZE) quantity] = []"
      by auto
    moreover have "fill_batch single quantity i j (ps, tr) = (ps, tr)"
      using False by (subst fill_batch.simps) auto
    ultimately show ?thesis
      by simp
  qed
qed

lemma collect_results_eq:
  "collect_results (map single ns) urls = urls @ successes single ns"
  by (induction ns arbitrary: urls) (auto simp: successes_def split: option.splits)

lemma successes_append: "successes single (xs @ ys) = successes single xs @ successes single ys"
  by (simp add: successes_def)

lemma window_append:
  "i < quantity \<Longrightarrow> window quantity i @ [i + BATCH_SIZE ..< quantity] = [i ..< quantity]"
proof (cases "i + BATCH_SIZE \<le> quantity")
  case True
  then obtain d where "quantity = i + BATCH_SIZE + d"
    using le_Suc_ex by blast
  then show ?thesis
    by (simp add: window_def upt_add_eq_append [of i "i + BATCH_SIZE" d])
next
  case False
  then show ?thesis
    by (simp add: window_def min_def)
qed

text \<open>The loop, started at \<open>i\<close> in state \<open>s\<close>, appends to each component of the state.\<close>

lemma batch_loop_eq:
  "batch_loop single lat quantity i s =
     \<lparr>generatedUrls = generatedUrls s @ successes single [i ..< quantity],
      trace = trace s @ concat (map (segment lat) (groups_from quantity i)),
      batches = batches s @ groups_from quantity i\<rparr>"
proof (induction single lat quantity i s rule: batch_loop.induct)
  case (1 single lat quantity i s)
  show ?case
  proof (cases "i < quantity")
    case False
    then show ?thesis
      by (subst batch_loop.simps, subst groups_from.simps, subst (2) groups_from.simps)
         (simp add: successes_def)
  next
    case True
    let ?w = "window quantity i"
    let ?s' = "\<lparr>generatedUrls = generatedUrls s @ successes single ?w,
                trace = trace s @ segment lat ?w,
                batches = batches s @ [?w]\<rparr>"
    have fill: "fill_batch single quantity i 0 ([], trace s)
                  = (map (\<lambda>n. (n, single n)) ?w, trace s @ map Dispatch ?w)"
      by (simp add: fill_batch_eq window_def)
    have step: "batch_loop single lat quantity i s
                  = batch_loop single lat quantity (i + BATCH_SIZE) ?s'"
      using True
      by (subst batch_loop.simps)
         (simp add: fill await_all_def segment_def o_def collect_results_eq)
    have ih: "batch_loop single lat quantity (i + BATCH_SIZE) ?s' =
        \<lparr>generatedUrls = generatedUrls ?s' @ successes single [i + BATCH_SIZE ..< quantity],
         trace = trace ?s' @ concat (map (segment lat) (groups_from quantity (i + BATCH_SIZE))),
         batches = batches ?s' @ groups_from quantity (i + BATCH_SIZE)\<rparr>"
      using "1.IH" [OF True fill [symmetric], unfolded await_all_def, OF refl]
      by (simp add: segment_def [abs_def] o_def collect_results_eq)
    have g: "groups_from quantity i = ?w # groups_from quantity (i + BATCH_SIZE)"
      using True by (subst groups_from.simps) simp
    show ?thesis
      unfolding step ih g
      by (simp add: successes_append [symmetric] window_append [OF True])
  qed
qed

lemma concat_groups_from: "concat (groups_from quantity i) = [i ..< quantity]"
proof (induction quantity i rule: groups_from.induct)
  case (1 quantity i)
  show ?case
  proof (cases "i < quantity")
    case True
    then show ?thesis
      using "1.IH" by (subst groups_from.simps) (simp add: window_append)
  next
    case False
    then show ?thesis
      by (subst groups_from.simps) simp
  qed
qed

lemma length_groups_from: "length (groups_from quantity i) = (quantity - i + 3) div 4"
proof (induction quantity i rule: groups_from.induct)
  case (1 quantity i)
  show ?case
  proof (cases "i < quantity")
    case True
    then have "length (groups_from quantity i) = Suc ((quantity - (i + 4) + 3) div 4)"
      using "1.IH" by (subst groups_from.simps) (simp add: BATCH_SIZE_def)
    also have "\<dots> = (quantity - i + 3) div 4"
      using True by (cases "i + 4 \<le> quantity") auto
    finally show ?thesis .
  next
    case False
    then show ?thesis
      by (subst groups_from.simps) simp
  qed
qed

lemma groups_from_bounds:
  "g \<in> set (groups_from quantity i) \<Longrightarrow> g \<noteq> [] \<and> length g \<le> BATCH_SIZE"
proof (induction quantity i rule: groups_from.induct)
  case (1 quantity i)
  show ?case
  proof (cases "i < quantity")
    case True
    with "1.prems" have "g = window quantity i \<or> g \<in> set (groups_from quantity (i + BATCH_SIZE))"
      by (subst (asm) groups_from.simps) simp
    moreover have "window quantity i \<noteq> [] \<and> length (window quantity i) \<le> BATCH_SIZE"
      using True by (auto simp: window_def BATCH_SIZE_def)
    ultimately show ?thesis
      using True "1.IH" by auto
  next
    case False
    with "1.prems" show ?thesis
      by (subst (asm) groups_from.simps) simp
  qed
qed

lemma ceiling_quarters: "nat \<lceil>real q / real BATCH_SIZE\<rceil> = (q + 3) div 4"
proof -
  have "real q / real BATCH_SIZE = of_int (int q) / of_int 4"
    by (simp add: BATCH_SIZE_def)
  then have "\<lceil>real q / real BATCH_SIZE\<rceil> = - (- int q div 4)"
    by (simp only: ceiling_divide_eq_div)
  then show ?thesis
    by simp
qed

lemma set_segment: "set (segment lat g) = Dispatch ` set g \<union> Settle ` set g"
  by (simp add: segment_def)

lemma set_segments:
  "set (concat (map (segment lat) gs)) = Dispatch ` set (concat gs) \<union> Settle ` set (concat gs)"
  by (induction gs) (auto simp: set_segment)

lemma distinct_segment: "distinct g \<Longrightarrow> distinct (segment lat g)"
  by (auto simp: segment_def distinct_map inj_on_def)

lemma distinct_segments:
  "distinct (concat gs) \<Longrightarrow> distinct (concat (map (segment lat) gs))"
proof (induction gs)
  case Nil
  then show ?case by simp
next
  case (Cons g gs)
  then have "distinct g" "distinct (concat gs)" "set g \<inter> set (concat gs) = {}"
    by auto
  then show ?case
    using Cons.IH by (auto simp: distinct_segment set_segment set_segments simp del: set_concat)
qed

text \<open>In a concatenation, what comes from an earlier block stands before what comes from a later one.\<close>

lemma concat_order:
  assumes "k < k'" "k' < length gs" "x \<in> set (f (gs ! k))" "y \<in> set (f (gs ! k'))"
  shows "\<exists>xs ys zs. concat (map f gs) = xs @ x # ys @ y # zs"
proof -
  let ?bs = "drop (Suc k) gs"
  have gs: "gs = take k gs @ gs ! k # ?bs"
    using assms by (simp add: id_take_nth_drop)
  have k': "gs ! k' = ?bs ! (k' - Suc k)" "k' - Suc k < length ?bs"
    using assms by auto
  then have bs: "?bs = take (k' - Suc k) ?bs @ gs ! k' # drop (Suc (k' - Suc k)) ?bs"
    by (metis id_take_nth_drop)
  obtain u v where u: "f (gs ! k) = u @ x # v"
    using assms(3) by (auto dest: split_list)
  obtain u' v' where u': "f (gs ! k') = u' @ y # v'"
    using assms(4) by (auto dest: split_list)
  let ?A = "concat (map f (take k gs))"
  let ?C = "concat (map f (take (k' - Suc k) ?bs))"
  let ?D = "concat (map f (drop (Suc (k' - Suc k)) ?bs))"
  have "concat (map f gs) = ?A @ f (gs ! k) @ concat (map f ?bs)"
    by (subst gs) simp
  also have "concat (map f ?bs) = ?C @ f (gs ! k') @ ?D"
    by (subst bs) simp
  finally have "concat (map f gs) = (?A @ u) @ x # (v @ ?C @ u') @ y # (v' @ ?D)"
    by (simp add: u u')
  then show ?thesis
    by blast
qed

lemma batch_run:
  "batch_loop single lat quantity 0 init_batch_state =
     \<lparr>generatedUrls = successes single [0 ..< quantity],
      trace = concat (map (segment lat) (groups_from quantity 0)),
      batches = groups_from quantity 0\<rparr>"
  by (simp add: batch_loop_eq init_batch_state_def)

lemma batch_run_groups:
  assumes "s = batch_loop single lat quantity 0 init_batch_state"
  shows "concat (batches s) = [0 ..< quantity]"
    and "length (batches s) = nat \<lceil>real quantity / real BATCH_SIZE\<rceil>"
    and "\<forall>g \<in> set (batches s). g \<noteq> [] \<and> length g \<le> BATCH_SIZE"
    and "trace s = concat (map (\<lambda>g. map Dispatch g @ map Settle (sort_key lat g)) (batches s))"
    and "distinct (trace s)"
    and "set (trace s) = Dispatch ` {..< quantity} \<union> Settle ` {..< quantity}"
    and "\<forall>k k' a b. k < k' \<and> k' < length (batches s)
            \<and> a \<in> set (batches s ! k) \<and> b \<in> set (batches s ! k')
          \<longrightarrow> (\<exists>xs ys zs. trace s = xs @ Settle a # ys @ Dispatch b # zs)"
proof -
  have s: "batches s = groups_from quantity 0"
          "trace s = concat (map (segment lat) (batches s))"
    using assms by (simp_all add: batch_run)
  show "concat (batches s) = [0 ..< quantity]"
    by (simp add: s concat_groups_from)
  then have d: "distinct (concat (batches s))"
    by simp
  show "length (batches s) = nat \<lceil>real quantity / real BATCH_SIZE\<rceil>"
    by (simp add: s length_groups_from ceiling_quarters)
  show "\<forall>g \<in> set (batches s). g \<noteq> [] \<and> length g \<le> BATCH_SIZE"
    using groups_from_bounds by (simp add: s)
  show "trace s = concat (map (\<lambda>g. map Dispatch g @ map Settle (sort_key lat g)) (batches s))"
    by (simp add: s(2) segment_def [abs_def])
  show "distinct (trace s)"
    using d by (simp only: s(2) distinct_segments)
  show "set (trace s) = Dispatch ` {..< quantity} \<union> Settle ` {..< quantity}"
    by (simp only: s(2) set_segments) (simp add: s(1) concat_groups_from lessThan_atLeast0)
  show "\<forall>k k' a b. k < k' \<and> k' < length (batches s)
            \<and> a \<in> set (batches s ! k) \<and> b \<in> set (batches s ! k')
          \<longrightarrow> (\<exists>xs ys zs. trace s = xs @ Settle a # ys @ Dispatch b # zs)"
  proof (intro allI impI, elim conjE)
    fix k k' a b
    assume "k < k'" "k' < length (batches s)" "a \<in> set (batches s ! k)" "b \<in> set (batches s ! k')"
    then show "\<exists>xs ys zs. trace s = xs @ Settle a # ys @ Dispatch b # zs"
      unfolding s(2) by (intro concat_order) (auto simp: set_segment)
  qed
qed

text \<open>The single-item helpers return \<open>null\<close> or a non-empty data URL.\<close>

lemma first_inline_image_nonempty: "first_inline_image ps \<noteq> Some []"
  by (induction ps rule: first_inline_image.induct) auto

lemma generateSingle_nonempty: "generateSingle api cleanedImage prompt ratio i \<noteq> Some []"
  by (simp add: generateSingle_def Let_def first_inline_image_nonempty split: api_result.splits)

lemma generateSingleVariation_nonempty:
  "generateSingleVariation api all_parts finalPrompt ratio i \<noteq> Some []"
  by (simp add: generateSingleVariation_def Let_def first_inline_image_nonempty
           split: api_result.splits)

text \<open>The \<open>catch\<close> of a helper turns a thrown call into \<open>null\<close>; so does a response without image.\<close>

lemma case_throws:
  assumes "\<forall>req. \<exists>e. api i req = Throws e"
  shows "(case api i req of Throws e \<Rightarrow> a | Returns r \<Rightarrow> f r) = a"
proof -
  obtain e where "api i req = Throws e"
    using assms by blast
  then show ?thesis
    by simp
qed


lemma generateSingle_throws:
  "\<forall>req. \<exists>e. api i req = Throws e \<Longrightarrow> generateSingle api cleanedImage prompt ratio i = None"
  by (simp add: generateSingle_def Let_def case_throws)

lemma generateSingleVariation_throws:
  "\<forall>req. \<exists>e. api i req = Throws e
     \<Longrightarrow> generateSingleVariation api all_parts finalPrompt ratio i = None"
  by (simp add: generateSingleVariation_def Let_def case_throws)



lemma successes_map_filter:
  "(\<And>n. single n \<noteq> Some []) \<Longrightarrow> successes single ns = List.map_filter single ns"
proof (induction ns)
  case Nil
  show ?case by (simp add: successes_def List.map_filter_def)
next
  case (Cons n ns)
  then have "successes single ns = List.map_filter single ns"
    by simp
  moreover have "single n \<noteq> Some []"
    by (rule Cons.prems)
  ultimately show ?case
    by (cases "single n") (simp_all add: successes_def List.map_filter_def)
qed

lemma map_filter_empty_iff:
  "List.map_filter single ns = [] \<longleftrightarrow> (\<forall>n \<in> set ns. single n = None)"
  by (induction ns) (auto simp: List.map_filter_def)

text \<open>Both services are the loop over their helper, then the final check.\<close>

lemma studio_run:
  "generateStudioImage api lat imageBase64 studioStyle ratio brandProfile quantity =
     (let s = batch_loop (generateSingle api (cleanBase64 imageBase64)
                            (studio_prompt studioStyle brandProfile) ratio) lat quantity 0
                init_batch_state
      in (s, if generatedUrls s = [] then Inl (Error ''No image generated'')
             else Inr (generatedUrls s)))"
  by (simp add: generateStudioImage_def Let_def)

lemma composite_run:
  "generateCompositeImage api lat images promptInstruction ratio brandProfile quantity =
     (let s = batch_loop (generateSingleVariation api
                            (composite_parts images (composite_prompt promptInstruction brandProfile))
                            (composite_prompt promptInstruction brandProfile) ratio) lat quantity 0
                init_batch_state
      in (s, if generatedUrls s = [] then Inl (Error ''No composite images generated'')
             else Inr (generatedUrls s)))"
  by (simp add: generateCompositeImage_def Let_def)

lemma run_urls:
  assumes "\<And>n. single n \<noteq> Some []"
  shows "generatedUrls (batch_loop single lat quantity 0 init_batch_state)
           = List.map_filter single [0 ..< quantity]"
  using assms by (simp add: batch_run successes_map_filter)

text \<open>
  Claim C1. A batch run of \<open>generateStudioImage\<close> or \<open>generateCompositeImage\<close> with
  quantity \<open>Q\<close> and window \<open>BATCH_SIZE = 4\<close> awaits exactly \<open>\<lceil>Q / 4\<rceil>\<close> batches; the
  batches are non-empty, hold at most four indices each and, put end to end, are
  \<open>0, \<dots>, Q - 1\<close>. The events of the run are, batch after batch, the dispatches of the
  batch followed by its settlements, every event occurring once; so the settlement of
  every call of a batch precedes the dispatch of every call of a later batch.
\<close>

theorem batch_window_partition:
  assumes "s = fst (generateStudioImage api lat imageBase64 studioStyle ratio brandProfile quantity)
         \<or> s = fst (generateCompositeImage api lat images promptInstruction ratio brandProfile quantity)"
  shows "BATCH_SIZE = 4
       \<and> concat (batches s) = [0 ..< quantity]
       \<and> length (batches s) = nat \<lceil>real quantity / real BATCH_SIZE\<rceil>
       \<and> (\<forall>g \<in> set (batches s). g \<noteq> [] \<and> length g \<le> BATCH_SIZE)
       \<and> trace s = concat (map (\<lambda>g. map Dispatch g @ map Settle (sort_key lat g)) (batches s))
       \<and> distinct (trace s)
       \<and> (\<forall>k k' a b. k < k' \<and> k' < length (batches s)
              \<and> a \<in> set (batches s ! k) \<and> b \<in> set (batches s ! k')
            \<longrightarrow> (\<exists>xs ys zs. trace s = xs @ Settle a # ys @ Dispatch b # zs))"
proof -
  obtain single where "s = batch_loop single lat quantity 0 init_batch_state"
    using assms by (auto simp: studio_run composite_run Let_def)
  from batch_run_groups [OF this] show ?thesis
    by (simp add: BATCH_SIZE_def)
qed

text \<open>
  Quantity 10: the batches are \<open>[0..3]\<close>, \<open>[4..7]\<close>, \<open>[8, 9]\<close>, and item 7 of the second
  batch settles before item 8 of the third is dispatched.
\<close>

theorem batch_window_partition_witness:
  "batches (fst (generateStudioImage sample_api sample_lat sample_image ''Minimalist'' ''1:1'' None 10))
     = [[0, 1, 2, 3], [4, 5, 6, 7], [8, 9]]
   \<and> length (batches (fst (generateStudioImage sample_api sample_lat sample_image ''Minimalist'' ''1:1'' None 10)))
     = nat \<lceil>real (10::nat) / real BATCH_SIZE\<rceil>
   \<and> (\<exists>xs ys zs. trace (fst (generateStudioImage sample_api sample_lat sample_image ''Minimalist'' ''1:1'' None 10))
          = xs @ Settle 7 # ys @ Dispatch 8 # zs)"
proof -
  let ?s = "fst (generateStudioImage sample_api sample_lat sample_image ''Minimalist'' ''1:1'' None 10)"
  have b: "batches ?s = [[0, 1, 2, 3], [4, 5, 6, 7], [8, 9]]"
    by (simp add: generateStudioImage_def Let_def batch_loop.simps fill_batch.simps await_all_def
          init_batch_state_def BATCH_SIZE_def)
  have inst: "length (batches ?s) = nat \<lceil>real (10::nat) / real BATCH_SIZE\<rceil>
        \<and> (\<forall>k k' a b. k < k' \<and> k' < length (batches ?s)
              \<and> a \<in> set (batches ?s ! k) \<and> b \<in> set (batches ?s ! k')
            \<longrightarrow> (\<exists>xs ys zs. trace ?s = xs @ Settle a # ys @ Dispatch b # zs))"
    using batch_window_partition [of ?s sample_api sample_lat sample_image "''Minimalist''" "''1:1''" None 10]
    by blast
  then have "(1::nat) < 2 \<and> 2 < length (batches ?s) \<and> 7 \<in> set (batches ?s ! 1) \<and> 8 \<in> set (batches ?s ! 2)
        \<longrightarrow> (\<exists>xs ys zs. trace ?s = xs @ Settle 7 # ys @ Dispatch 8 # zs)"
    by blast
  moreover have "(1::nat) < 2 \<and> 2 < length (batches ?s) \<and> 7 \<in> set (batches ?s ! 1) \<and> 8 \<in> set (batches ?s ! 2)"
    by (simp add: b)
  ultimately show ?thesis
    using b inst by blast
qed

text \<open>
  Claim C2. In a batch run, the final check throws (\<open>No image generated\<close>, resp.
  \<open>No composite images generated\<close>) exactly when no item produced an artifact, that is
  when every item's helper returned \<open>null\<close>; in particular when every backend call of
  the run throws. A run that returns, returns a non-empty list.
\<close>

theorem total_failure_is_thrown:
  assumes "(run, single, err) =
             (generateStudioImage api lat imageBase64 studioStyle ratio brandProfile quantity,
              generateSingle api (cleanBase64 imageBase64) (studio_prompt studioStyle brandProfile) ratio,
              Error ''No image generated'')
         \<or> (run, single, err) =
             (generateCompositeImage api lat images promptInstruction ratio brandProfile quantity,
              generateSingleVariation api
                (composite_parts images (composite_prompt promptInstruction brandProfile))
                (composite_prompt promptInstruction brandProfile) ratio,
              Error ''No composite images generated'')"
  shows "(generatedUrls (fst run) = [] \<longleftrightarrow> (\<forall>i < quantity. single i = None))
       \<and> (snd run = Inl err \<longleftrightarrow> generatedUrls (fst run) = [])
       \<and> (\<forall>urls. snd run = Inr urls \<longrightarrow> urls \<noteq> [] \<and> urls = generatedUrls (fst run))
       \<and> (\<forall>e. snd run = Inl e \<longrightarrow> e = err)
       \<and> ((\<forall>i < quantity. \<forall>req. \<exists>e. api i req = Throws e) \<longrightarrow> snd run = Inl err)"
proof -
  let ?s = "batch_loop single lat quantity 0 init_batch_state"
  have ne: "\<And>n. single n \<noteq> Some []"
    using assms generateSingle_nonempty generateSingleVariation_nonempty by auto
  have run: "run = (?s, if generatedUrls ?s = [] then Inl err else Inr (generatedUrls ?s))"
    using assms by (auto simp: studio_run composite_run Let_def)
  have urls: "generatedUrls ?s = [] \<longleftrightarrow> (\<forall>i < quantity. single i = None)"
    by (auto simp: run_urls [OF ne] map_filter_empty_iff)
  have throws: "(\<forall>req. \<exists>e. api i req = Throws e) \<Longrightarrow> single i = None" for i
    using assms by (auto simp: generateSingle_throws generateSingleVariation_throws)
  show ?thesis
    using urls throws by (auto simp: run)
qed

text \<open>Four items whose calls all throw: the run throws, it does not return an empty list.\<close>

theorem total_failure_is_thrown_witness:
  "(\<forall>i req. \<exists>e. failing_api i req = Throws e)
   \<and> snd (generateStudioImage failing_api sample_lat sample_image ''Minimalist'' ''1:1'' None 4)
       = Inl (Error ''No image generated'')
   \<and> snd (generateStudioImage failing_api sample_lat sample_image ''Minimalist'' ''1:1'' None 4) \<noteq> Inr []"
proof -
  have h: "\<forall>i < (4::nat). \<forall>req. \<exists>e. failing_api i req = Throws e"
    by (simp add: failing_api_def)
  note inst = total_failure_is_thrown
    [of "generateStudioImage failing_api sample_lat sample_image ''Minimalist'' ''1:1'' None 4"
        "generateSingle failing_api (cleanBase64 sample_image) (studio_prompt ''Minimalist'' None) ''1:1''"
        "Error ''No image generated''"
        failing_api sample_lat sample_image "''Minimalist''" "''1:1''" None 4,
     OF disjI1 [OF refl]]
  from inst h
  have "snd (generateStudioImage failing_api sample_lat sample_image ''Minimalist'' ''1:1'' None 4)
          = Inl (Error ''No image generated'')"
    by blast
  moreover have "\<forall>i req. \<exists>e. failing_api i req = Throws e"
    by (simp add: failing_api_def)
  ultimately show ?thesis
    by simp
qed



section \<open>The video poller\<close>

text \<open>A loop that ends normally ends on a handle that is done.\<close>

lemma poll_loop_result:
  assumes "poll_loop getOp n operation cycles = Some r"
  shows "\<forall>operation' cycles'. r = (Inr operation', cycles') \<longrightarrow> op_done operation'"
  using assms
  apply (rule poll_loop.raw_induct [rotated])
  apply (auto split: if_splits api_result.splits)
  done

lemma poll_loop_done:
  "poll_loop getOp n operation cycles = Some (Inr operation', cycles') \<Longrightarrow> op_done operation'"
  using poll_loop_result by blast

text \<open>
  If the handles \<open>ops m, ops (m + 1), \<dots>\<close> answered by the backend are not done for \<open>n\<close>
  status calls and the next one is done, the loop makes exactly \<open>n\<close> cycles.
\<close>

lemma poll_loop_steps:
  assumes "\<forall>k < n. \<not> op_done (ops (m + k)) \<and> getOp (m + k) (ops (m + k)) = Returns (ops (Suc (m + k)))"
    and "op_done (ops (m + n))"
  shows "poll_loop getOp m (ops m) cycles
           = Some (Inr (ops (m + n)), cycles @ concat (replicate n [Delay 5000, GetVideosOperation]))"
  using assms
proof (induction n arbitrary: m cycles)
  case 0
  then show ?case
    by (subst poll_loop.simps) simp
next
  case (Suc n)
  from Suc.prems(1) have first: "\<not> op_done (ops m)" "getOp m (ops m) = Returns (ops (Suc m))"
    by (auto dest: spec [of _ 0])
  have rest: "\<forall>k < n. \<not> op_done (ops (Suc m + k))
                \<and> getOp (Suc m + k) (ops (Suc m + k)) = Returns (ops (Suc (Suc m + k)))"
  proof (intro allI impI)
    fix k assume "k < n"
    then have "Suc k < Suc n" by simp
    with Suc.prems(1) show "\<not> op_done (ops (Suc m + k))
        \<and> getOp (Suc m + k) (ops (Suc m + k)) = Returns (ops (Suc (Suc m + k)))"
      by (metis add_Suc_shift)
  qed
  have "poll_loop getOp m (ops m) cycles
          = poll_loop getOp (Suc m) (ops (Suc m)) (cycles @ [Delay 5000, GetVideosOperation])"
    using first by (subst poll_loop.simps) simp
  also have "\<dots> = Some (Inr (ops (Suc m + n)),
                 (cycles @ [Delay 5000, GetVideosOperation])
                   @ concat (replicate n [Delay 5000, GetVideosOperation]))"
    using Suc.prems(2) by (intro Suc.IH rest) simp
  finally show ?case
    by simp
qed

lemma generateVeoVideo_finished:
  assumes "generateVideos backend (veo_request (cleanBase64 imageBase64) prompt ratio) = Returns operation0"
    and "poll_loop (getVideosOperation backend) 0 operation0 [] = Some (Inr operation, cycles)"
  shows "generateVeoVideo key backend imageBase64 prompt ratio =
           Some (if truthy (op_uri operation)
                 then Inr (Some (template (op_uri operation) @ ''&key='' @ template key))
                 else Inr None, cycles)"
  using assms by (simp add: generateVeoVideo_def Let_def)

text \<open>
  Claim C4, as the code has it. When a video job completes with a non-empty artifact URI
  \<open>u\<close>, \<open>generateVeoVideo\<close> returns \<open>u\<close> followed by \<open>&key=\<close> and the value of
  \<open>process.env.API_KEY\<close> (the text \<open>undefined\<close> when the variable is unset), which is not
  \<open>u\<close>; the scene orchestrator stores that value as the \<open>videoUrl\<close> of the scene's
  entry and marks the entry completed.
\<close>

theorem video_result_carries_key:
  assumes "generateVideos backend (veo_request (cleanBase64 imageBase64) prompt ratio) = Returns operation0"
    and "poll_loop (getVideosOperation backend) 0 operation0 [] = Some (Inr operation, cycles)"
    and "op_uri operation = Some u"
    and "u \<noteq> []"
    and "v = u @ ''&key='' @ template key"
  shows "op_done operation
       \<and> generateVeoVideo key backend imageBase64 prompt ratio = Some (Inr (Some v), cycles)
       \<and> v \<noteq> u
       \<and> settle_scene accessor scene (Inr (Some v)) st
           = (Fulfilled,
              st\<lparr>generatedVideos :=
                   map (\<lambda>e. if sceneId e = scene_id scene
                             then e\<lparr>videoUrl := v, status := completed\<rparr> else e)
                       (generatedVideos st)\<rparr>)"
proof -
  have "generateVeoVideo key backend imageBase64 prompt ratio = Some (Inr (Some v), cycles)"
    using assms(3-5) by (simp add: generateVeoVideo_finished [OF assms(1,2)])
  moreover have "v \<noteq> u" "v \<noteq> []"
    using assms(4,5) by simp_all
  ultimately show ?thesis
    using poll_loop_done [OF assms(2)]
    by (simp add: settle_scene_def record_result_def)
qed

theorem video_result_carries_key_witness:
  "generateVeoVideo None one_poll_backend sample_image ''slow pan'' ''9:16''
     = Some (Inr (Some ''https://v.test/clip?alt=media&key=undefined''), [Delay 5000, GetVideosOperation])"
proof -
  have submit: "generateVideos one_poll_backend (veo_request (cleanBase64 sample_image) ''slow pan'' ''9:16'')
                  = Returns pending_operation"
    by (simp add: one_poll_backend_def)
  have poll: "poll_loop (getVideosOperation one_poll_backend) 0 pending_operation []
                = Some (Inr (finished_operation ''https://v.test/clip?alt=media''), [Delay 5000, GetVideosOperation])"
    by (simp add: poll_loop.simps one_poll_backend_def pending_operation_def finished_operation_def)
  have uri: "op_uri (finished_operation ''https://v.test/clip?alt=media'') = Some ''https://v.test/clip?alt=media''"
            "''https://v.test/clip?alt=media'' \<noteq> []"
    by (simp_all add: finished_operation_def)
  from video_result_carries_key [OF submit poll uri refl, of None, THEN conjunct2, THEN conjunct1]
  show ?thesis
    by simp
qed

text \<open>
  The claim as stated fails: with API key \<open>K\<close>, a job that completes with URI \<open>X\<close>
  gives the caller \<open>X&key=K\<close>, not \<open>X\<close>.
\<close>

theorem video_uri_is_modified:
  "op_uri (finished_operation ''X'') = Some ''X''
   \<and> generateVeoVideo (Some ''K'') instant_backend sample_image ''slow pan'' ''9:16''
       = Some (Inr (Some ''X&key=K''), [])
   \<and> generateVeoVideo (Some ''K'') instant_backend sample_image ''slow pan'' ''9:16''
       \<noteq> Some (Inr (Some ''X''), [])"
  by (simp add: generateVeoVideo_def Let_def instant_backend_def finished_operation_def
        poll_loop.simps)

text \<open>
  Claim C5, as the code has it. If the handle returned at submission and the handles
  returned by the first \<open>n - 1\<close> status calls are not done, and the \<open>n\<close>-th status call
  returns a handle that is done, then the poller makes exactly \<open>n\<close> cycles, each a wait of
  5000 ms followed by one status call. The call then returns the URI of that handle
  followed by \<open>&key=\<close> and the API key; when the handle has no (or an empty) URI it
  returns \<open>null\<close>, and the scene orchestrator records a \<open>null\<close> result as a failed entry.
\<close>

theorem poller_cycles:
  assumes "generateVideos backend (veo_request (cleanBase64 imageBase64) prompt ratio) = Returns (ops 0)"
    and "\<forall>k < n. \<not> op_done (ops k) \<and> getVideosOperation backend k (ops k) = Returns (ops (Suc k))"
    and "op_done (ops n)"
  shows "generateVeoVideo key backend imageBase64 prompt ratio =
           Some (if truthy (op_uri (ops n))
                 then Inr (Some (template (op_uri (ops n)) @ ''&key='' @ template key))
                 else Inr None,
                 concat (replicate n [Delay 5000, GetVideosOperation]))
       \<and> settle_scene accessor scene (Inr None) st
           = (Fulfilled,
              st\<lparr>generatedVideos :=
                   map (\<lambda>e. if sceneId e = scene_id scene
                             then e\<lparr>videoUrl := [], status := failed\<rparr> else e)
                       (generatedVideos st)\<rparr>)"
proof -
  have "poll_loop (getVideosOperation backend) 0 (ops 0) []
          = Some (Inr (ops (0 + n)), [] @ concat (replicate n [Delay 5000, GetVideosOperation]))"
    using assms(2,3) by (intro poll_loop_steps) simp_all
  then show ?thesis
    using generateVeoVideo_finished [OF assms(1)]
    by (simp add: settle_scene_def record_result_def)
qed

text \<open>
  Not done, not done, then done with URI \<open>X\<close>: two cycles, and the call returns
  \<open>X&key=K\<close>.
\<close>

theorem poller_cycles_witness:
  "generateVeoVideo (Some ''K'') scenario_d_backend sample_image ''slow pan'' ''9:16''
     = Some (Inr (Some ''X&key=K''),
             [Delay 5000, GetVideosOperation, Delay 5000, GetVideosOperation])"
proof -
  let ?ops = "\<lambda>k::nat. if k < 2 then pending_operation else finished_operation ''X''"
  have submit: "generateVideos scenario_d_backend (veo_request (cleanBase64 sample_image) ''slow pan'' ''9:16'')
                  = Returns (?ops 0)"
    by (simp add: scenario_d_backend_def)
  have polls: "\<forall>k < 2. \<not> op_done (?ops k)
                 \<and> getVideosOperation scenario_d_backend k (?ops k) = Returns (?ops (Suc k))"
    by (auto simp: scenario_d_backend_def pending_operation_def less_Suc_eq numeral_2_eq_2)
  have fin: "op_done (?ops 2)"
    by (simp add: finished_operation_def)
  from poller_cycles [of scenario_d_backend sample_image "''slow pan''" "''9:16''" ?ops 2 "Some ''K''",
                      OF submit polls fin, THEN conjunct1]
  show ?thesis
    by (simp add: finished_operation_def numeral_2_eq_2)
qed

text \<open>
  The claim as stated fails on its last word: in Scenario D the call does two cycles but
  returns \<open>X&key=K\<close>, not \<open>X\<close>.
\<close>

theorem poller_result_is_not_bare_uri:
  "generateVeoVideo (Some ''K'') scenario_d_backend sample_image ''slow pan'' ''9:16''
     \<noteq> Some (Inr (Some ''X''), [Delay 5000, GetVideosOperation, Delay 5000, GetVideosOperation])"
  by (simp add: generateVeoVideo_def Let_def scenario_d_backend_def pending_operation_def
        finished_operation_def poll_loop.simps)

section \<open>The JSON reader: what it consumes, and its bound\<close>

text \<open>Every parser returns a rest that is shorter than its input.\<close>

lemma skip_ws_length: "length (skip_ws s) \<le> length s"
  by (simp add: skip_ws_def length_dropWhile_le)

lemma skip_ws_Cons: "skip_ws s = c # r \<Longrightarrow> length r < length s"
  using skip_ws_length [of s] by simp

lemma parse_chars_shorter: "parse_chars s = Some (k, r) \<Longrightarrow> length r < length s"
proof (induction s arbitrary: k r rule: parse_chars.induct)
  case 1
  then show ?case by simp
next
  case (2 c cs)
  show ?case
  proof (cases "c = CHR 0x22")
    case True
    with "2.prems" show ?thesis by simp
  next
    case quote: False
    show ?thesis
    proof (cases "c = CHR 0x5C")
      case False
      with quote "2.prems" obtain str where "parse_chars cs = Some (str, r)"
        by (auto split: if_splits)
      from "2.IH"(3) [OF quote False _ this] quote False "2.prems" show ?thesis
        by (auto split: if_splits)
    next
      case True
      with quote "2.prems" obtain e rest where cs: "cs = e # rest"
        by (cases cs) auto
      show ?thesis
      proof (cases "e = CHR ''u''")
        case u: True
        with quote True cs "2.prems" obtain str where
          p: "length rest \<ge> 4" "list_all is_hex (take 4 rest)" "parse_chars (drop 4 rest) = Some (str, r)"
          by (auto split: if_splits)
        from "2.IH"(1) [OF quote True cs u _ p(3)] p(1,2) have "length r < length (drop 4 rest)"
          by simp
        with cs show ?thesis by simp
      next
        case nu: False
        with quote True cs "2.prems" obtain ch str where
          p: "simple_escape e = Some ch" "parse_chars rest = Some (str, r)"
          by (auto split: if_splits option.splits)
        from "2.IH"(2) [OF quote True cs nu p(1) p(2)] cs show ?thesis
          by simp
      qed
    qed
  qed
qed

lemma int_part_shorter: "int_part s = Some (t, r) \<Longrightarrow> length r < length s"
  by (cases s) (auto split: if_splits simp: less_Suc_eq_le length_dropWhile_le)

lemma frac_part_shorter: "frac_part s = Some (t, r) \<Longrightarrow> length r \<le> length s"
  by (cases s) (auto split: if_splits simp: le_SucI length_dropWhile_le)

lemma exp_sign_shorter: "exp_sign s = (t, r) \<Longrightarrow> length r \<le> length s"
  by (cases s) (auto split: if_splits)

lemma exp_part_shorter: "exp_part s = Some (t, r) \<Longrightarrow> length r \<le> length s"
proof (cases s)
  case Nil
  then show "exp_part s = Some (t, r) \<Longrightarrow> length r \<le> length s" by simp
next
  case (Cons c cs)
  assume a: "exp_part s = Some (t, r)"
  show "length r \<le> length s"
  proof (cases "c = CHR ''e'' \<or> c = CHR ''E''")
    case True
    obtain sg r' where e: "exp_sign cs = (sg, r')"
      by (cases "exp_sign cs")
    with a Cons True have "r = dropWhile is_digit r'"
      by (auto split: if_splits)
    then have "length r \<le> length r'"
      by (simp add: length_dropWhile_le)
    with exp_sign_shorter [OF e] Cons show ?thesis
      by simp
  next
    case False
    with a Cons show ?thesis by auto
  qed
qed

lemma parse_number_shorter:
  assumes "parse_number s = Some (t, r)"
  shows "length r < length s"
proof -
  obtain sign s1 where s1: "(case s of c # r \<Rightarrow> if c = CHR ''-'' then ([c], r) else ([], s) | [] \<Rightarrow> ([], s)) = (sign, s1)"
    by (cases "(case s of c # r \<Rightarrow> if c = CHR ''-'' then ([c], r) else ([], s) | [] \<Rightarrow> ([], s))")
  then have l1: "length s1 \<le> length s"
    by (auto split: list.splits if_splits)
  from assms s1 obtain ip s2 fp s3 ep where p:
    "int_part s1 = Some (ip, s2)" "frac_part s2 = Some (fp, s3)" "exp_part s3 = Some (ep, r)"
    by (auto simp: parse_number_def split: option.splits)
  from int_part_shorter [OF p(1)] frac_part_shorter [OF p(2)] exp_part_shorter [OF p(3)] l1
  show ?thesis
    by linarith
qed


text \<open>Values, elements and members, by the recursion of the three functions.\<close>

lemma parse_shorter:
  "parse_value n s = Some (v, r) \<Longrightarrow> length r < length s"
  "parse_elements n s = Some (vs, r) \<Longrightarrow> length r < length s"
  "parse_members n s = Some (ms, r) \<Longrightarrow> length r < length s"
proof (induction n s and n s and n s arbitrary: v r and vs r and ms r
       rule: parse_value_parse_elements_parse_members.induct)
  case (1 s)
  then show ?case by simp
next
  case (2 n s)
  from "2.prems" obtain c t where sk: "skip_ws s = c # t"
    by (auto split: list.splits)
  note len = skip_ws_Cons [OF sk]
  show ?case
  proof (cases "c = CHR ''{''")
    case True
    with "2.prems" sk obtain c' t' where sk': "skip_ws t = c' # t'"
      by (auto split: list.splits)
    show ?thesis
    proof (cases "c' = CHR ''}''")
      case True
      with \<open>c = CHR ''{''\<close> "2.prems" sk sk' have "r = t'" by simp
      with skip_ws_Cons [OF sk'] len show ?thesis by simp
    next
      case False
      with \<open>c = CHR ''{''\<close> "2.prems" sk sk' obtain ms where "parse_members n (c' # t') = Some (ms, r)"
        by auto
      from "2.IH"(1) [OF sk \<open>c = CHR ''{''\<close> sk' False this] skip_ws_length [of t] sk' len
      show ?thesis by simp
    qed
  next
    case nb: False
    show ?thesis
    proof (cases "c = CHR ''[''")
      case True
      with nb "2.prems" sk obtain c' t' where sk': "skip_ws t = c' # t'"
        by (auto split: list.splits)
      show ?thesis
      proof (cases "c' = CHR '']''")
        case True
        with nb \<open>c = CHR ''[''\<close> "2.prems" sk sk' have "r = t'" by simp
        with skip_ws_Cons [OF sk'] len show ?thesis by simp
      next
        case False
        with nb \<open>c = CHR ''[''\<close> "2.prems" sk sk' obtain vs where "parse_elements n (c' # t') = Some (vs, r)"
          by auto
        from "2.IH"(2) [OF sk nb \<open>c = CHR ''[''\<close> sk' False this] skip_ws_length [of t] sk' len
        show ?thesis by simp
      qed
    next
      case na: False
      with nb "2.prems" sk have
        "(\<exists>str. parse_chars t = Some (str, r)) \<or> r = drop 4 (c # t) \<or> r = drop 5 (c # t)
          \<or> (\<exists>num. parse_number (c # t) = Some (num, r))"
        by (auto split: if_splits)
      then show ?thesis
        using len skip_ws_length [of s] sk
        by (auto dest!: parse_chars_shorter parse_number_shorter)
    qed
  qed
next
  case (3 s)
  then show ?case by simp
next
  case (4 n s)
  from "4.prems" obtain v0 r0 where pv: "parse_value n s = Some (v0, r0)"
    by (auto split: option.splits)
  note l0 = "4.IH"(1) [OF pv]
  from "4.prems" pv obtain c t where sk: "skip_ws r0 = c # t"
    by (auto split: list.splits)
  note l1 = skip_ws_Cons [OF sk]
  show ?case
  proof (cases "c = CHR '',''")
    case True
    with "4.prems" pv sk obtain vs' where "parse_elements n t = Some (vs', r)"
      by auto
    from "4.IH"(2) [OF pv refl sk True this] l0 l1 show ?thesis
      by simp
  next
    case False
    with "4.prems" pv sk have "r = t"
      by (auto split: if_splits)
    with l0 l1 show ?thesis by simp
  qed
next
  case (5 s)
  then show ?case by simp
next
  case (6 n s)
  from "6.prems" obtain q t where sk: "skip_ws s = q # t" and q: "q = CHR 0x22"
    by (auto split: list.splits if_splits)
  from "6.prems" sk q obtain k r1 where pc: "parse_chars t = Some (k, r1)"
    by (auto split: option.splits)
  from "6.prems" sk q pc obtain c r2 where sk1: "skip_ws r1 = c # r2" and c: "c = CHR '':''"
    by (auto split: list.splits if_splits)
  from "6.prems" sk q pc sk1 c obtain v0 r3 where pv: "parse_value n r2 = Some (v0, r3)"
    by (auto split: option.splits)
  from "6.prems" sk q pc sk1 c pv obtain c' r4 where sk3: "skip_ws r3 = c' # r4"
    by (auto split: list.splits)
  have nq: "\<not> q \<noteq> CHR 0x22" "\<not> c \<noteq> CHR '':''"
    using q c by simp_all
  note l = skip_ws_Cons [OF sk] parse_chars_shorter [OF pc] skip_ws_Cons [OF sk1]
    "6.IH"(1) [OF sk nq(1) pc refl sk1 nq(2) pv] skip_ws_Cons [OF sk3]
  show ?case
  proof (cases "c' = CHR '',''")
    case True
    with "6.prems" sk q pc sk1 c pv sk3 obtain ms' where pm: "parse_members n r4 = Some (ms', r)"
      by auto
    from "6.IH"(2) [OF sk nq(1) pc refl sk1 nq(2) pv refl sk3 True pm] l show ?thesis
      by simp
  next
    case False
    with "6.prems" sk q pc sk1 c pv sk3 have "r = r4"
      by (auto split: if_splits)
    with l show ?thesis by simp
  qed
qed

text \<open>
  Once the bound exceeds twice the length of the input, one more step of it changes
  nothing.
\<close>

lemma fuel_stable:
  "2 * length s + 1 \<le> n \<Longrightarrow> parse_value (Suc n) s = parse_value n s"
  "2 * length s + 2 \<le> n \<Longrightarrow> parse_elements (Suc n) s = parse_elements n s"
  "2 * length s + 2 \<le> n \<Longrightarrow> parse_members (Suc n) s = parse_members n s"
proof (induction n s and n s and n s rule: parse_value_parse_elements_parse_members.induct)
  case (1 s)
  then show ?case by simp
next
  case (2 n s)
  note unfold_value = parse_value.simps(2) [of "Suc n" s] parse_value.simps(2) [of n s]
  show ?case
  proof (cases "skip_ws s")
    case Nil
    then show ?thesis
      by (simp only: unfold_value simp_thms list.case)
  next
    case (Cons c t)
    note len = skip_ws_Cons [OF Cons]
    show ?thesis
    proof (cases "c = CHR ''{'' \<or> c = CHR ''[''")
      case False
      then have "c \<noteq> CHR ''{''" "c \<noteq> CHR ''[''"
        by simp_all
      then show ?thesis
        by (simp only: unfold_value simp_thms Cons list.case if_False)
    next
      case bracket: True
      show ?thesis
      proof (cases "skip_ws t")
        case Nil
        with bracket show ?thesis
          by (auto simp only: unfold_value simp_thms Cons list.case if_True if_False split: if_splits)
      next
        case inner: (Cons c' t')
        have small: "2 * length (c' # t') + 2 \<le> n"
          using len skip_ws_length [of t] inner "2.prems" by simp
        show ?thesis
        proof (cases "c = CHR ''{''")
          case True
          show ?thesis
          proof (cases "c' = CHR ''}''")
            case close: True
            show ?thesis
              by (simp only: unfold_value simp_thms Cons inner list.case True close if_True)
          next
            case False
            have "parse_members (Suc n) (c' # t') = parse_members n (c' # t')"
              using "2.IH"(1) [OF Cons True inner False small] .
            with False show ?thesis
              by (simp only: unfold_value simp_thms Cons inner list.case True if_True if_False)
          qed
        next
          case nb: False
          with bracket have sq: "c = CHR ''[''"
            by simp
          show ?thesis
          proof (cases "c' = CHR '']''")
            case close: True
            from nb show ?thesis
              by (simp only: unfold_value simp_thms Cons inner list.case sq close if_True if_False)
          next
            case False
            have "parse_elements (Suc n) (c' # t') = parse_elements n (c' # t')"
              using "2.IH"(2) [OF Cons nb sq inner False small] .
            with nb False show ?thesis
              by (simp only: unfold_value simp_thms Cons inner list.case sq if_True if_False)
          qed
        qed
      qed
    qed
  qed
next
  case (3 s)
  then show ?case by simp
next
  case (4 n s)
  note unfold_elements = parse_elements.simps(2) [of "Suc n" s] parse_elements.simps(2) [of n s]
  have v: "parse_value (Suc n) s = parse_value n s"
    using "4.IH"(1) "4.prems" by simp
  show ?case
  proof (cases "parse_value n s")
    case None
    with v show ?thesis
      by (simp only: unfold_elements simp_thms option.case)
  next
    case (Some p)
    obtain v0 r0 where p: "p = (v0, r0)" by (cases p)
    note pv = Some [unfolded p]
    note l0 = parse_shorter(1) [OF pv]
    show ?thesis
    proof (cases "skip_ws r0")
      case Nil
      with v pv show ?thesis
        by (simp only: unfold_elements simp_thms option.case prod.case list.case)
    next
      case (Cons c t)
      note l1 = skip_ws_Cons [OF Cons]
      show ?thesis
      proof (cases "c = CHR '',''")
        case True
        have "parse_elements (Suc n) t = parse_elements n t"
          using "4.IH"(2) [OF pv refl Cons True] l0 l1 "4.prems" by simp
        with v pv Cons show ?thesis
          by (simp only: unfold_elements simp_thms option.case prod.case list.case True if_True)
      next
        case False
        with v pv Cons show ?thesis
          by (simp only: unfold_elements simp_thms option.case prod.case list.case if_False)
      qed
    qed
  qed
next
  case (5 s)
  then show ?case by simp
next
  case (6 n s)
  note unfold_members = parse_members.simps(2) [of "Suc n" s] parse_members.simps(2) [of n s]
  show ?case
  proof (cases "skip_ws s")
    case Nil
    then show ?thesis
      by (simp only: unfold_members simp_thms list.case)
  next
    case (Cons q t)
    show ?thesis
    proof (cases "q \<noteq> CHR 0x22")
      case True
      with Cons show ?thesis
        by (simp only: unfold_members simp_thms list.case if_True)
    next
      case q: False
      show ?thesis
      proof (cases "parse_chars t")
        case None
        with Cons q show ?thesis
          by (simp only: unfold_members simp_thms list.case if_False option.case)
      next
        case (Some p)
        obtain k r1 where p: "p = (k, r1)" by (cases p)
        note pc = Some [unfolded p]
        show ?thesis
        proof (cases "skip_ws r1")
          case Nil
          with Cons q pc show ?thesis
            by (simp only: unfold_members simp_thms list.case if_False option.case prod.case)
        next
          case sk1: (Cons c r2)
          show ?thesis
          proof (cases "c \<noteq> CHR '':''")
            case True
            with Cons q pc sk1 show ?thesis
              by (simp only: unfold_members simp_thms list.case if_False if_True option.case prod.case)
          next
            case c: False
            note l = skip_ws_Cons [OF Cons] parse_chars_shorter [OF pc] skip_ws_Cons [OF sk1]
            have v: "parse_value (Suc n) r2 = parse_value n r2"
              using "6.IH"(1) [OF Cons q pc refl sk1 c] l "6.prems" by simp
            show ?thesis
            proof (cases "parse_value n r2")
              case None
              with v Cons q pc sk1 c show ?thesis
                by (simp only: unfold_members simp_thms list.case if_False option.case prod.case)
            next
              case (Some p')
              obtain v0 r3 where p': "p' = (v0, r3)" by (cases p')
              note pv = Some [unfolded p']
              note l3 = parse_shorter(1) [OF pv]
              show ?thesis
              proof (cases "skip_ws r3")
                case Nil
                with v pv Cons q pc sk1 c show ?thesis
                  by (simp only: unfold_members simp_thms list.case if_False option.case prod.case)
              next
                case sk3: (Cons c' r4)
                note l4 = skip_ws_Cons [OF sk3]
                show ?thesis
                proof (cases "c' = CHR '',''")
                  case True
                  have "parse_members (Suc n) r4 = parse_members n r4"
                    using "6.IH"(2) [OF Cons q pc refl sk1 c pv refl sk3 True] l l3 l4 "6.prems"
                    by simp
                  with v pv Cons q pc sk1 c sk3 show ?thesis
                    by (simp only: unfold_members simp_thms list.case if_False if_True option.case
                          prod.case True)
                next
                  case False
                  with v pv Cons q pc sk1 c sk3 show ?thesis
                    by (simp only: unfold_members simp_thms list.case if_False option.case prod.case)
                qed
              qed
            qed
          qed
        qed
      qed
    qed
  qed
qed

text \<open>So a larger bound than the one \<open>JSON_parse\<close> starts with gives the same result.\<close>

lemma fuel_enough: "parse_value (2 * length s + 2 + k) s = parse_value (2 * length s + 2) s"
proof (induction k)
  case 0
  show ?case by simp
next
  case (Suc k)
  have "parse_value (Suc (2 * length s + 2 + k)) s = parse_value (2 * length s + 2 + k) s"
    by (rule fuel_stable(1)) simp
  with Suc show ?case by simp
qed

section \<open>Product analysis: the fallback record\<close>

lemma JSON_parse_empty_object: "JSON_parse ''{}'' = Some (JObject [])"
  by (simp add: JSON_parse_def skip_ws_def is_ws_def eval_nat_numeral)

lemma JSON_parse_empty_text: "JSON_parse [] = None"
  by (simp add: JSON_parse_def skip_ws_def eval_nat_numeral)

lemma analyzeProductDetails_returned:
  assumes "api (analysis_request_of (cleanBase64 imageBase64)) = Returns text"
  shows "analyzeProductDetails api imageBase64 =
           (case JSON_parse (or_default text ''{}'') of
              Some v \<Rightarrow> Inr v
            | None \<Rightarrow> Inr analysis_fallback)"
  using assms by (simp add: analyzeProductDetails_def Let_def)

text \<open>
  Claim C6, as the code has it. When the response text is non-empty and \<open>JSON.parse\<close>
  rejects it, \<open>analyzeProductDetails\<close> returns the fixed record
  \<open>{description: "Analysis failed", usp: "High Quality", productCategory: "General",
  targetGender: "Unisex"}\<close>; it does not throw.
\<close>

theorem unparsable_analysis_yields_fallback:
  assumes "api (analysis_request_of (cleanBase64 imageBase64)) = Returns (Some text)"
    and "text \<noteq> []"
    and "JSON_parse text = None"
  shows "analyzeProductDetails api imageBase64 = Inr analysis_fallback
       \<and> field analysis_fallback ''description'' = Some (JString ''Analysis failed'')
       \<and> field analysis_fallback ''usp'' = Some (JString ''High Quality'')
       \<and> field analysis_fallback ''productCategory'' = Some (JString ''General'')
       \<and> field analysis_fallback ''targetGender'' = Some (JString ''Unisex'')"
proof -
  have "or_default (Some text) ''{}'' = text"
    using assms(2) by simp
  then show ?thesis
    using assms(3)
    by (simp add: analyzeProductDetails_returned [of api imageBase64 "Some text", OF assms(1)]
          analysis_fallback_def)
qed

theorem unparsable_analysis_yields_fallback_witness:
  "JSON_parse ''I cannot analyze this image.'' = None
   \<and> analyzeProductDetails (analysis_backend (Some ''I cannot analyze this image.'')) sample_image
       = Inr analysis_fallback"
proof -
  have rejected: "JSON_parse ''I cannot analyze this image.'' = None"
    by code_simp
  have answer: "analysis_backend (Some ''I cannot analyze this image.'')
                  (analysis_request_of (cleanBase64 sample_image))
                  = Returns (Some ''I cannot analyze this image.'')"
    by (simp add: analysis_backend_def)
  from unparsable_analysis_yields_fallback
         [of "analysis_backend (Some ''I cannot analyze this image.'')" sample_image
             "''I cannot analyze this image.''", OF answer _ rejected]
       rejected
  show ?thesis
    by simp
qed

text \<open>
  The claim as stated fails on the empty text: it is not JSON, yet the result is the
  empty object and not the fallback record.
\<close>

theorem empty_text_is_not_the_fallback:
  "JSON_parse [] = None
   \<and> analyzeProductDetails (analysis_backend (Some [])) sample_image = Inr (JObject [])
   \<and> analyzeProductDetails (analysis_backend (Some [])) sample_image \<noteq> Inr analysis_fallback"
  by (simp add: JSON_parse_empty_text analyzeProductDetails_def Let_def analysis_backend_def
        JSON_parse_empty_object analysis_fallback_def)

text \<open>
  Claim C10. When the response text is absent or empty, \<open>JSON.parse\<close> is given the literal
  \<open>{}\<close>, which parses; the result is the empty object, none of whose fields is defined,
  and it differs from the fallback record. The \<open>catch\<close> branch is taken exactly when
  \<open>JSON.parse\<close> throws on the text it is given: otherwise the result is the parsed value
  (so a result equal to the fallback record means that the parse threw, or that the
  backend sent that very record).
\<close>

theorem absent_text_parses_as_empty_object:
  assumes "api (analysis_request_of (cleanBase64 imageBase64)) = Returns text"
  shows "JSON_parse ''{}'' = Some (JObject [])
       \<and> (text = None \<or> text = Some []
            \<longrightarrow> analyzeProductDetails api imageBase64 = Inr (JObject [])
              \<and> (\<forall>k. field (JObject []) k = None)
              \<and> JObject [] \<noteq> analysis_fallback)
       \<and> (JSON_parse (or_default text ''{}'') = None
            \<longrightarrow> analyzeProductDetails api imageBase64 = Inr analysis_fallback)
       \<and> (\<forall>v. JSON_parse (or_default text ''{}'') = Some v
            \<longrightarrow> analyzeProductDetails api imageBase64 = Inr v)
       \<and> (analyzeProductDetails api imageBase64 = Inr analysis_fallback
            \<longrightarrow> JSON_parse (or_default text ''{}'') = None
              \<or> JSON_parse (or_default text ''{}'') = Some analysis_fallback)"
proof -
  have "or_default text ''{}'' = ''{}''" if "text = None \<or> text = Some []"
    using that by auto
  then show ?thesis
    by (auto simp: analyzeProductDetails_returned [of api imageBase64 "text", OF assms]
          JSON_parse_empty_object analysis_fallback_def split: option.splits)
qed

theorem absent_text_parses_as_empty_object_witness:
  "analyzeProductDetails (analysis_backend None) sample_image = Inr (JObject [])
   \<and> field (JObject []) ''description'' = None
   \<and> analyzeProductDetails (analysis_backend None) sample_image \<noteq> Inr analysis_fallback"
proof -
  have answer: "analysis_backend None (analysis_request_of (cleanBase64 sample_image)) = Returns None"
    by (simp add: analysis_backend_def)
  from absent_text_parses_as_empty_object [of "analysis_backend None" sample_image None, OF answer]
  show ?thesis
    by simp
qed

section \<open>Prompt builder: the derived action\<close>

text \<open>
  Claim C7, as the code has it. When the pose asks for automatic selection and analysis
  data is present, the lower-cased category is searched for the keywords \<open>shoe\<close> or
  \<open>footwear\<close>, then \<open>skincare\<close> or \<open>cosmetic\<close>, then \<open>clothing\<close> or \<open>fashion\<close>, then
  \<open>beverage\<close> or \<open>food\<close>; the first class with a keyword in the category selects the
  phrase, and a category with none of the eight keywords gets the generic phrase.
\<close>

theorem derived_action_by_keyword_class:
  assumes "str_includes pose ''Smart Adaptive'' \<or> pose = ''Let AI Decide (Auto)''"
    and "c = toLowerCase (productCategory a)"
    and "footwear = (str_includes c ''shoe'' \<or> str_includes c ''footwear'')"
    and "skincare = (str_includes c ''skincare'' \<or> str_includes c ''cosmetic'')"
    and "apparel = (str_includes c ''clothing'' \<or> str_includes c ''fashion'')"
    and "beverage = (str_includes c ''beverage'' \<or> str_includes c ''food'')"
  shows "(footwear \<longrightarrow> derivedAction pose (Some a)
            = ''Low angle shot, showing the model's legs/feet walking or dynamic movement with the shoes.'')
       \<and> (\<not> footwear \<and> skincare \<longrightarrow> derivedAction pose (Some a)
            = ''Close up portrait, model holding product near face, flawless skin texture.'')
       \<and> (\<not> footwear \<and> \<not> skincare \<and> apparel \<longrightarrow> derivedAction pose (Some a)
            = ''Medium or Full shot, model wearing the product, confident fashion pose.'')
       \<and> (\<not> footwear \<and> \<not> skincare \<and> \<not> apparel \<and> beverage \<longrightarrow> derivedAction pose (Some a)
            = ''Model holding the item ready to consume/drink, enjoying the moment.'')
       \<and> (\<not> footwear \<and> \<not> skincare \<and> \<not> apparel \<and> \<not> beverage \<longrightarrow> derivedAction pose (Some a)
            = ''Natural interaction with the product in a lifestyle setting.'')"
  using assms(1) unfolding assms(2-6) derivedAction_def
  by (simp del: str_includes.simps)

text \<open>
  A category naming both fashion and shoes is footwear (the first class wins); a pet toy
  matches no class.
\<close>

theorem derived_action_by_keyword_class_witness:
  "derivedAction ''Let AI Decide (Auto)'' (Some (analysis_of_category ''Fashion Shoes''))
     = ''Low angle shot, showing the model's legs/feet walking or dynamic movement with the shoes.''
   \<and> derivedAction ''Let AI Decide (Auto)'' (Some (analysis_of_category ''Pet Toy''))
     = ''Natural interaction with the product in a lifestyle setting.''"
proof -
  have shoes: "str_includes (toLowerCase (productCategory (analysis_of_category ''Fashion Shoes''))) ''shoe''"
    by (simp add: analysis_of_category_def toLowerCase_def lower_char_def)
  have toy: "\<not> str_includes (toLowerCase (productCategory (analysis_of_category ''Pet Toy''))) k"
    if "k \<in> set [''shoe'', ''footwear'', ''skincare'', ''cosmetic'', ''clothing'', ''fashion'', ''beverage'', ''food'']"
    for k
    using that by (auto simp: analysis_of_category_def toLowerCase_def lower_char_def)
  from derived_action_by_keyword_class
         [of "''Let AI Decide (Auto)''" _ "analysis_of_category ''Fashion Shoes''", OF _ refl refl refl refl refl]
       derived_action_by_keyword_class
         [of "''Let AI Decide (Auto)''" _ "analysis_of_category ''Pet Toy''", OF _ refl refl refl refl refl]
       shoes toy
  show ?thesis
    by simp
qed

text \<open>
  The claim as stated fails on the class it calls apparel: the category \<open>Apparel\<close>
  contains that keyword, and the derived action is the generic phrase.
\<close>

theorem apparel_category_gets_generic_action:
  "str_includes (toLowerCase ''Apparel'') ''apparel''
   \<and> derivedAction ''Let AI Decide (Auto)'' (Some (analysis_of_category ''Apparel''))
       = ''Natural interaction with the product in a lifestyle setting.''
   \<and> derivedAction ''Let AI Decide (Auto)'' (Some (analysis_of_category ''Apparel''))
       \<noteq> ''Medium or Full shot, model wearing the product, confident fashion pose.''"
  by (simp add: derivedAction_def analysis_of_category_def toLowerCase_def lower_char_def)

section \<open>The scene orchestrator\<close>

text \<open>What the steps of a run leave untouched.\<close>

lemma checkApiKey_frame:
  assumes "checkApiKey accessor st = (ready, st')"
  shows "veoCalls st' = veoCalls st" "generatedVideos st' = generatedVideos st"
    "errorMsg st' = errorMsg st" "alerts st' = alerts st" "isGenerating st' = isGenerating st"
  using assms
  by (auto simp: checkApiKey_def split: option.splits api_result.splits if_splits)

lemma mark_failed_frame:
  "veoCalls (mark_failed scene st) = veoCalls st"
  "keyPrompts (mark_failed scene st) = keyPrompts st"
  "errorMsg (mark_failed scene st) = errorMsg st"
  "map sceneId (generatedVideos (mark_failed scene st)) = map sceneId (generatedVideos st)"
  by (simp_all add: mark_failed_def o_def)

lemma record_result_frame:
  "veoCalls (record_result scene url st) = veoCalls st"
  "keyPrompts (record_result scene url st) = keyPrompts st"
  "errorMsg (record_result scene url st) = errorMsg st"
  "map sceneId (generatedVideos (record_result scene url st)) = map sceneId (generatedVideos st)"
  by (simp_all add: record_result_def o_def)

lemma settle_scene_frame:
  assumes "settle_scene accessor scene r st = (res, st')"
  shows "veoCalls st' = veoCalls st"
    and "map sceneId (generatedVideos st') = map sceneId (generatedVideos st)"
  using assms
  by (auto simp: settle_scene_def Let_def mark_failed_frame record_result_frame
           split: sum.splits option.splits api_result.splits if_splits)

lemma settle_all_frame:
  assumes "settle_all accessor rs rejected st = (rejected', st')"
  shows "veoCalls st' = veoCalls st \<and> map sceneId (generatedVideos st') = map sceneId (generatedVideos st)"
  using assms
proof (induction rs arbitrary: rejected st)
  case Nil
  then show ?case by simp
next
  case (Cons x rs)
  obtain scene r where x: "x = (scene, r)"
    by (cases x)
  obtain res st1 where s: "settle_scene accessor scene r st = (res, st1)"
    by (cases "settle_scene accessor scene r st")
  note f = settle_scene_frame [OF s]
  show ?case
  proof (cases res)
    case Fulfilled
    with Cons.prems x s have "settle_all accessor rs rejected st1 = (rejected', st')"
      by simp
    from Cons.IH [OF this] f show ?thesis
      by simp
  next
    case (Rejected e)
    let ?st2 = "if rejected then st1
                else st1\<lparr>errorMsg := Some ''An unexpected error occurred during generation.'',
                         isGenerating := False\<rparr>"
    from Rejected Cons.prems x s have "settle_all accessor rs True ?st2 = (rejected', st')"
      by (simp split: if_splits)
    from Cons.IH [OF this] f show ?thesis
      by (simp split: if_splits)
  qed
qed

text \<open>A scene that has an image starts a video call; the calls of a run, in scene order.\<close>

lemma start_scene_not_skipped:
  "scene_image scene \<noteq> None \<Longrightarrow> start_scene h brandProfile ratio k scene \<noteq> Skipped"
  by (auto simp: start_scene_def split: option.splits)

lemma calls_of_tasks:
  assumes "\<forall>s \<in> set xs. scene_image s \<noteq> None"
  shows "map (\<lambda>(k, scene, t). (scene_id scene, scene_prompt scene brandProfile))
           (filter (\<lambda>(k, scene, t). t \<noteq> Skipped)
              (map (\<lambda>(k, scene). (k, scene, start_scene h brandProfile ratio k scene)) (enumerate n xs)))
         = map (\<lambda>s. (scene_id s, scene_prompt s brandProfile)) xs"
  using assms by (induction xs arbitrary: n) (simp_all add: start_scene_not_skipped)

text \<open>The run, once its two guards are passed.\<close>

lemma handleGenerate_started:
  assumes "validScenes = filter (\<lambda>s. scene_image s \<noteq> None) scenes"
    and "validScenes \<noteq> []"
    and "checkApiKey (window_aistudio h) (st\<lparr>errorMsg := None\<rparr>) = (True, st2)"
  shows "veoCalls (handleGenerate h brandProfile ratio scenes st)
           = veoCalls st @ map (\<lambda>s. (scene_id s, scene_prompt s brandProfile)) validScenes"
    and "map sceneId (generatedVideos (handleGenerate h brandProfile ratio scenes st))
           = map scene_id validScenes"
proof -
  let ?st3 = "st2\<lparr>isGenerating := True,
                  generatedVideos :=
                    map (\<lambda>s. \<lparr>sceneId = scene_id s, videoUrl = [], status = generating\<rparr>) validScenes\<rparr>"
  let ?tasks = "tasks_of h brandProfile ratio validScenes"
  let ?st4 = "?st3\<lparr>veoCalls := veoCalls ?st3
                @ map (\<lambda>(k, scene, t). (scene_id scene, scene_prompt scene brandProfile))
                    (filter (\<lambda>(k, scene, t). t \<noteq> Skipped) ?tasks)\<rparr>"
  let ?order = "map (\<lambda>(k, scene, r). (scene, r))
                  (sort_key (\<lambda>(k, scene, r). settle_time h k) (settling ?tasks))"
  obtain rejected st5 where s: "settle_all (window_aistudio h) ?order False ?st4 = (rejected, st5)"
    by (cases "settle_all (window_aistudio h) ?order False ?st4")
  have valid: "\<forall>s \<in> set validScenes. scene_image s \<noteq> None"
    by (simp add: assms(1))
  have run: "handleGenerate h brandProfile ratio scenes st
               = (if \<not> rejected \<and> list_all (\<lambda>(k, scene, t). t \<noteq> Pending) ?tasks
                  then st5\<lparr>isGenerating := False\<rparr> else st5)"
    unfolding handleGenerate_def Let_def assms(1) [symmetric]
    using assms(2,3) s by simp
  have calls: "veoCalls ?st4 = veoCalls st @ map (\<lambda>s. (scene_id s, scene_prompt s brandProfile)) validScenes"
    using checkApiKey_frame(1) [OF assms(3)] calls_of_tasks [OF valid]
    by (simp add: tasks_of_def)
  have ids: "map sceneId (generatedVideos ?st4) = map scene_id validScenes"
    by (simp add: o_def)
  from settle_all_frame [OF s] calls ids
  show "veoCalls (handleGenerate h brandProfile ratio scenes st)
           = veoCalls st @ map (\<lambda>s. (scene_id s, scene_prompt s brandProfile)) validScenes"
    and "map sceneId (generatedVideos (handleGenerate h brandProfile ratio scenes st))
           = map scene_id validScenes"
    by (simp_all add: run)
qed

lemma handleGenerate_not_started:
  assumes "validScenes = filter (\<lambda>s. scene_image s \<noteq> None) scenes"
    and "validScenes = [] \<or> \<not> fst (checkApiKey (window_aistudio h) (st\<lparr>errorMsg := None\<rparr>))"
  shows "veoCalls (handleGenerate h brandProfile ratio scenes st) = veoCalls st"
    and "generatedVideos (handleGenerate h brandProfile ratio scenes st) = generatedVideos st"
proof -
  obtain ready st2 where c: "checkApiKey (window_aistudio h) (st\<lparr>errorMsg := None\<rparr>) = (ready, st2)"
    by (cases "checkApiKey (window_aistudio h) (st\<lparr>errorMsg := None\<rparr>)")
  have "handleGenerate h brandProfile ratio scenes st
          = (if validScenes = []
             then st\<lparr>errorMsg := None,
                     alerts := alerts st @ [''Please upload an image for at least one scene.'']\<rparr>
             else st2)"
    unfolding handleGenerate_def Let_def assms(1) [symmetric]
    using assms(2) c by auto
  with checkApiKey_frame(1,2) [OF c]
  show "veoCalls (handleGenerate h brandProfile ratio scenes st) = veoCalls st"
    and "generatedVideos (handleGenerate h brandProfile ratio scenes st) = generatedVideos st"
    by simp_all
qed

lemma handleGenerate_valid_only:
  "handleGenerate h brandProfile ratio (filter (\<lambda>s. scene_image s \<noteq> None) scenes) st
     = handleGenerate h brandProfile ratio scenes st"
  by (simp add: handleGenerate_def)

declare poll_loop.simps [code]

text \<open>
  Claim C8. In a storyboard run, the video calls are made for exactly the scenes that
  have an image, one call each and in scene order, once the run has passed its two
  guards (some scene has an image, the key check succeeds); otherwise no call is made and
  the result collection is left as it was. The collection of a started run has one entry
  per scene with an image and none for the others. The whole outcome of the run (result
  collection, statuses, error message, calls) is that of the run on the scenes with an
  image alone: the other scenes count for nothing.
\<close>

theorem scenes_without_image_are_left_out:
  assumes "validScenes = filter (\<lambda>s. scene_image s \<noteq> None) scenes"
    and "started = (validScenes \<noteq> [] \<and> fst (checkApiKey (window_aistudio h) (st\<lparr>errorMsg := None\<rparr>)))"
    and "st' = handleGenerate h brandProfile ratio scenes st"
  shows "veoCalls st' = veoCalls st
           @ (if started then map (\<lambda>s. (scene_id s, scene_prompt s brandProfile)) validScenes else [])
       \<and> (started \<longrightarrow> map sceneId (generatedVideos st') = map scene_id validScenes)
       \<and> (\<not> started \<longrightarrow> generatedVideos st' = generatedVideos st)
       \<and> st' = handleGenerate h brandProfile ratio validScenes st"
proof -
  have same: "st' = handleGenerate h brandProfile ratio validScenes st"
    unfolding assms(1,3) by (rule handleGenerate_valid_only [symmetric])
  show ?thesis
  proof (cases started)
    case True
    then obtain st2 where "validScenes \<noteq> []"
      "checkApiKey (window_aistudio h) (st\<lparr>errorMsg := None\<rparr>) = (True, st2)"
      unfolding assms(2) by (cases "checkApiKey (window_aistudio h) (st\<lparr>errorMsg := None\<rparr>)") auto
    from handleGenerate_started [OF assms(1) this, of brandProfile ratio] True same
    show ?thesis
      unfolding assms(3) by simp
  next
    case False
    then have "validScenes = [] \<or> \<not> fst (checkApiKey (window_aistudio h) (st\<lparr>errorMsg := None\<rparr>))"
      unfolding assms(2) by simp
    from handleGenerate_not_started [OF assms(1) this, of brandProfile ratio] False same
    show ?thesis
      unfolding assms(3) by simp
  qed
qed

text \<open>
  Three scenes, the second without image: two calls, for the first and the third, and two
  entries in the result collection.
\<close>

theorem scenes_without_image_are_left_out_witness:
  "veoCalls (handleGenerate plain_host None ''9:16''
               [scene_with_image ''1'' ''pan'', scene_without_image ''2'', scene_with_image ''3'' []]
               idle_ui)
     = [(''1'', ''pan''), (''3'', ''Cinematic movement, high quality.'')]
   \<and> map sceneId (generatedVideos (handleGenerate plain_host None ''9:16''
               [scene_with_image ''1'' ''pan'', scene_without_image ''2'', scene_with_image ''3'' []]
               idle_ui))
     = [''1'', ''3'']"
proof -
  let ?scenes = "[scene_with_image ''1'' ''pan'', scene_without_image ''2'', scene_with_image ''3'' []]"
  let ?valid = "[scene_with_image ''1'' ''pan'', scene_with_image ''3'' []]"
  have valid: "?valid = filter (\<lambda>s. scene_image s \<noteq> None) ?scenes"
    by (simp add: scene_with_image_def scene_without_image_def)
  have started: "True = (?valid \<noteq> [] \<and> fst (checkApiKey (window_aistudio plain_host) (idle_ui\<lparr>errorMsg := None\<rparr>)))"
    by (simp add: checkApiKey_def plain_host_def)
  note inst = scenes_without_image_are_left_out [OF valid started refl, of None "''9:16''"]
  have calls: "veoCalls (handleGenerate plain_host None ''9:16'' ?scenes idle_ui)
                 = [(''1'', ''pan''), (''3'', ''Cinematic movement, high quality.'')]"
    using inst [THEN conjunct1] by (simp add: idle_ui_def scene_with_image_def scene_prompt_def)
  have ids: "map sceneId (generatedVideos (handleGenerate plain_host None ''9:16'' ?scenes idle_ui))
               = [''1'', ''3'']"
    using inst [THEN conjunct2, THEN conjunct1] by (simp add: scene_with_image_def)
  from calls ids show ?thesis
    by (rule conjI)
qed

text \<open>
  Claim C9, as the code has it. When a scene's video call throws an error whose message
  contains \<open>Requested entity was not found\<close>, the callback sets the advisory message and,
  if the host has the credential accessor, calls its key prompt once; when that prompt
  returns (or there is no accessor) the scene's entries are marked failed. An error
  without the signature only marks the scene failed: message and prompt count are left
  alone. In neither case is a video call made again: a run makes at most one call per
  scene with an image.
\<close>

theorem credential_error_handling:
  assumes "(res, st') = settle_scene accessor scene (Inl e) st"
    and "advisory = ''API Key invalid or not selected properly. Please try again.''"
    and "prompt_returns = (case accessor of None \<Rightarrow> True
                           | Some a \<Rightarrow> openSelectKey a (keyPrompts st) = Returns ())"
    and "marked = map (\<lambda>v. if sceneId v = scene_id scene then v\<lparr>status := failed\<rparr> else v)
                    (generatedVideos st)"
  shows "(credential_error e \<longrightarrow>
            errorMsg st' = Some advisory
          \<and> keyPrompts st' = (case accessor of None \<Rightarrow> keyPrompts st | Some a \<Rightarrow> Suc (keyPrompts st)))
       \<and> (credential_error e \<and> prompt_returns \<longrightarrow> res = Fulfilled \<and> generatedVideos st' = marked)
       \<and> (\<not> credential_error e \<longrightarrow>
            res = Fulfilled
          \<and> errorMsg st' = errorMsg st
          \<and> keyPrompts st' = keyPrompts st
          \<and> generatedVideos st' = marked)
       \<and> veoCalls st' = veoCalls st
       \<and> length (veoCalls (handleGenerate h brandProfile ratio scenes st0))
           \<le> length (veoCalls st0) + length (filter (\<lambda>s. scene_image s \<noteq> None) scenes)"
proof -
  have calls: "length (veoCalls (handleGenerate h brandProfile ratio scenes st0))
                 \<le> length (veoCalls st0) + length (filter (\<lambda>s. scene_image s \<noteq> None) scenes)"
  proof (cases "filter (\<lambda>s. scene_image s \<noteq> None) scenes \<noteq> []
                  \<and> fst (checkApiKey (window_aistudio h) (st0\<lparr>errorMsg := None\<rparr>))")
    case True
    then obtain st2 where "filter (\<lambda>s. scene_image s \<noteq> None) scenes \<noteq> []"
      "checkApiKey (window_aistudio h) (st0\<lparr>errorMsg := None\<rparr>) = (True, st2)"
      by (cases "checkApiKey (window_aistudio h) (st0\<lparr>errorMsg := None\<rparr>)") auto
    from handleGenerate_started(1) [OF refl this] show ?thesis
      by simp
  next
    case False
    then have "filter (\<lambda>s. scene_image s \<noteq> None) scenes = []
                 \<or> \<not> fst (checkApiKey (window_aistudio h) (st0\<lparr>errorMsg := None\<rparr>))"
      by blast
    from handleGenerate_not_started(1) [OF refl this] show ?thesis
      by simp
  qed
  have frame: "veoCalls st' = veoCalls st"
    using settle_scene_frame(1) [OF assms(1) [symmetric]] .
  have "credential_error e \<longrightarrow>
            errorMsg st' = Some advisory
          \<and> keyPrompts st' = (case accessor of None \<Rightarrow> keyPrompts st | Some a \<Rightarrow> Suc (keyPrompts st))"
    using assms(1) unfolding assms(2-4)
    by (auto simp: settle_scene_def Let_def mark_failed_def split: option.splits api_result.splits)
  moreover have "credential_error e \<and> prompt_returns \<longrightarrow> res = Fulfilled \<and> generatedVideos st' = marked"
    using assms(1) unfolding assms(2-4)
    by (auto simp: settle_scene_def Let_def mark_failed_def split: option.splits)
  moreover have "\<not> credential_error e \<longrightarrow>
            res = Fulfilled
          \<and> errorMsg st' = errorMsg st
          \<and> keyPrompts st' = keyPrompts st
          \<and> generatedVideos st' = marked"
    using assms(1) unfolding assms(2-4)
    by (auto simp: settle_scene_def Let_def mark_failed_def)
  ultimately show ?thesis
    using frame calls by blast
qed

text \<open>
  With the accessor present: the second scene's credential error sets the message, opens
  the key prompt once and marks the scene failed; so does the whole run of two scenes
  whose second call throws that error.
\<close>

theorem credential_error_handling_witness:
  "credential_error (Error ''404: Requested entity was not found.'')
   \<and> fst (settle_scene (window_aistudio studio_host) (scene_with_image ''2'' ''tilt'')
            (Inl (Error ''404: Requested entity was not found.'')) busy_ui) = Fulfilled
   \<and> errorMsg (snd (settle_scene (window_aistudio studio_host) (scene_with_image ''2'' ''tilt'')
            (Inl (Error ''404: Requested entity was not found.'')) busy_ui))
       = Some ''API Key invalid or not selected properly. Please try again.''
   \<and> keyPrompts (snd (settle_scene (window_aistudio studio_host) (scene_with_image ''2'' ''tilt'')
            (Inl (Error ''404: Requested entity was not found.'')) busy_ui)) = 1
   \<and> map status (generatedVideos (snd (settle_scene (window_aistudio studio_host)
            (scene_with_image ''2'' ''tilt'')
            (Inl (Error ''404: Requested entity was not found.'')) busy_ui)))
       = [generating, failed]
   \<and> handleGenerate studio_host None ''9:16''
        [scene_with_image ''1'' ''pan'', scene_with_image ''2'' ''tilt''] idle_ui
       = \<lparr>isGenerating = False,
          generatedVideos = [\<lparr>sceneId = ''1'', videoUrl = ''X&key=K'', status = completed\<rparr>,
                             \<lparr>sceneId = ''2'', videoUrl = [], status = failed\<rparr>],
          errorMsg = Some ''API Key invalid or not selected properly. Please try again.'',
          alerts = [], keyPrompts = 1,
          veoCalls = [(''1'', ''pan''), (''2'', ''tilt'')]\<rparr>"
proof -
  let ?e = "Error ''404: Requested entity was not found.''"
  let ?r = "settle_scene (window_aistudio studio_host) (scene_with_image ''2'' ''tilt'') (Inl ?e) busy_ui"
  have sig: "credential_error ?e"
    by (simp add: credential_error_def Error_def)
  have prompt: "True = (case window_aistudio studio_host of None \<Rightarrow> True
                        | Some a \<Rightarrow> openSelectKey a (keyPrompts busy_ui) = Returns ())"
    by (simp add: studio_host_def)
  have run: "handleGenerate studio_host None ''9:16''
        [scene_with_image ''1'' ''pan'', scene_with_image ''2'' ''tilt''] idle_ui
       = \<lparr>isGenerating = False,
          generatedVideos = [\<lparr>sceneId = ''1'', videoUrl = ''X&key=K'', status = completed\<rparr>,
                             \<lparr>sceneId = ''2'', videoUrl = [], status = failed\<rparr>],
          errorMsg = Some ''API Key invalid or not selected properly. Please try again.'',
          alerts = [], keyPrompts = 1,
          veoCalls = [(''1'', ''pan''), (''2'', ''tilt'')]\<rparr>"
    by code_simp
  from credential_error_handling
         [of "fst ?r" "snd ?r" "window_aistudio studio_host" "scene_with_image ''2'' ''tilt''" ?e busy_ui,
          OF _ refl prompt refl]
       sig
  have "fst ?r = Fulfilled
      \<and> errorMsg (snd ?r) = Some ''API Key invalid or not selected properly. Please try again.''
      \<and> keyPrompts (snd ?r) = 1
      \<and> map status (generatedVideos (snd ?r)) = [generating, failed]"
    by (simp add: studio_host_def busy_ui_def scene_with_image_def)
  with sig run show ?thesis
    by blast
qed

text \<open>
  The claim as stated fails where the host has no credential accessor: the second scene's
  call throws the credential error, the advisory message is set and the scene is marked
  failed, but nothing re-acquires the credential (no key prompt is opened).
\<close>

theorem credential_error_without_accessor:
  "generateVeoVideo (env_API_KEY plain_host) (veo plain_host 1) sample_image ''tilt'' ''9:16''
     = Some (Inl (Error ''404: Requested entity was not found.''), [])
   \<and> credential_error (Error ''404: Requested entity was not found.'')
   \<and> handleGenerate plain_host None ''9:16''
        [scene_with_image ''1'' ''pan'', scene_with_image ''2'' ''tilt''] idle_ui
       = \<lparr>isGenerating = False,
          generatedVideos = [\<lparr>sceneId = ''1'', videoUrl = ''X&key=K'', status = completed\<rparr>,
                             \<lparr>sceneId = ''2'', videoUrl = [], status = failed\<rparr>],
          errorMsg = Some ''API Key invalid or not selected properly. Please try again.'',
          alerts = [], keyPrompts = 0,
          veoCalls = [(''1'', ''pan''), (''2'', ''tilt'')]\<rparr>
   \<and> keyPrompts (handleGenerate plain_host None ''9:16''
        [scene_with_image ''1'' ''pan'', scene_with_image ''2'' ''tilt''] idle_ui)
       = keyPrompts idle_ui"
  by code_simp

end
